theory Spec2Isabelle
  imports Complex_Main "HOL-Library.AList" "HOL-Library.Multiset"
    "HOL-Library.List_Lexorder" "HOL-Library.Product_Lexorder"
begin

section \<open>Python values\<close>

subsection \<open>Strings\<close>

text \<open>
  A Python \<open>str\<close> is a sequence of Unicode code points; \<open>len\<close>, indexing, \<open>in\<close>,
  \<open>==\<close> and \<open><\<close> all work on code points. A string is therefore a list of
  natural numbers, one per code point. \<open>str ''abc''\<close> is the string of an ASCII literal;
  the few non-ASCII characters of the source are written as their code point.
\<close>

type_synonym str = "nat list"

definition str :: "string \<Rightarrow> str" where
  "str = map of_char"

text \<open>
  \<open>str.isspace\<close> for one code point: the white space of the Unicode database, which is
  what \<open>str.strip()\<close> with no argument removes at both ends.
\<close>

definition isspace :: "nat \<Rightarrow> bool" where
  "isspace c \<longleftrightarrow>
     (0x09 \<le> c \<and> c \<le> 0x0D) \<or> (0x1C \<le> c \<and> c \<le> 0x20) \<or> c = 0x85 \<or> c = 0xA0 \<or>
     c = 0x1680 \<or> (0x2000 \<le> c \<and> c \<le> 0x200A) \<or> c = 0x2028 \<or> c = 0x2029 \<or>
     c = 0x202F \<or> c = 0x205F \<or> c = 0x3000"

definition strip :: "str \<Rightarrow> str" where
  "strip s = rev (dropWhile isspace (rev (dropWhile isspace s)))"

text \<open>
  \<open>str.lower()\<close>. On a string of ASCII code points only, CPython maps \<open>A\<close>..\<open>Z\<close> to
  \<open>a\<close>..\<open>z\<close> and leaves every other code point alone. On any other string it consults
  the case tables of the Unicode database (with a context rule for the Greek capital sigma);
  these tables are not part of the repository, so the lower-casing of a string with a
  non-ASCII code point is the parameter \<open>U\<close> of the model, and every theorem below holds
  for every \<open>U\<close>.
\<close>

definition isascii :: "str \<Rightarrow> bool" where
  "isascii s = list_all (\<lambda>c. c < 0x80) s"

definition ascii_lower :: "nat \<Rightarrow> nat" where
  "ascii_lower c = (if 0x41 \<le> c \<and> c \<le> 0x5A then c + 0x20 else c)"

definition lower :: "(str \<Rightarrow> str) \<Rightarrow> str \<Rightarrow> str" where
  "lower U s = (if isascii s then map ascii_lower s else U s)"

text \<open>\<open>w in s\<close> on strings: \<open>w\<close> occurs in \<open>s\<close> as a contiguous substring.\<close>

fun contains :: "'a list \<Rightarrow> 'a list \<Rightarrow> bool" where
  "contains w [] = (w = [])"
| "contains w (c # cs) = (take (length w) (c # cs) = w \<or> contains w cs)"

subsection \<open>Exceptions, lists and dictionaries\<close>

datatype error = IndexError | KeyError

text \<open>\<open>xs[i]\<close> for a non-negative index: out of range raises \<open>IndexError\<close>.\<close>

definition list_getitem :: "'a list \<Rightarrow> nat \<Rightarrow> error + 'a" where
  "list_getitem xs i = (if i < length xs then Inr (xs ! i) else Inl IndexError)"

text \<open>
  A \<open>dict\<close> keeps its keys in insertion order, and assigning to a key that is present
  keeps the key's position: an association list with distinct keys, written to by
  \<^const>\<open>AList.update\<close>. \<open>d[k]\<close> raises \<open>KeyError\<close> on a missing key, \<open>d.get(k, default)\<close>
  does not.
\<close>

type_synonym ('k, 'v) dict = "('k \<times> 'v) list"

definition dict_getitem :: "('k, 'v) dict \<Rightarrow> 'k \<Rightarrow> error + 'v" where
  "dict_getitem d k = (case map_of d k of None \<Rightarrow> Inl KeyError | Some v \<Rightarrow> Inr v)"

definition dict_get :: "('k, 'v) dict \<Rightarrow> 'k \<Rightarrow> 'v \<Rightarrow> 'v" where
  "dict_get d k dflt = (case map_of d k of None \<Rightarrow> dflt | Some v \<Rightarrow> v)"

definition dict_keys :: "('k, 'v) dict \<Rightarrow> 'k list" where
  "dict_keys d = map fst d"

text \<open>\<open>range(0, stop, 2)\<close>; it is empty when \<open>stop\<close> is zero or negative.\<close>

definition range_step2 :: "int \<Rightarrow> nat list" where
  "range_step2 stop = filter even [0..<nat stop]"

section \<open>app.py: the conversation list and the phrase table\<close>

definition CONVERSATION :: "str list" where
  "CONVERSATION = [
     str ''Hello'',
       str ''Hello! Welcome to our textile and clothing store. How may I assist you today?'',
     str ''Hi'',
       str ''Hi there! How can I help you with fabrics or clothing today?'',
     str ''Good morning'',
       str ''Good morning! How can I support you with your textile needs today?'',
     str ''Good afternoon'',
       str ''Good afternoon! How may I assist you?'',
     str ''What are the latest clothing trends?'',
       str ''Current trends include breathable fabrics like cotton and linen, oversized fits, pastel colors, and sustainable eco-friendly materials.'',
     str ''What are the latest textile trends?'',
       str ''Popular textile trends include organic fabrics, textured weaves, geometric patterns, digital prints, and soft-tone dyeing techniques.'',
     str ''What about textile patterns?'',
       str ''Floral prints, geometric motifs, minimalistic stripes, and classy jacquard textures are trending this season.'',
     str ''What fabrics do you recommend?'',
       str ''I recommend organic cotton for comfort, linen blends for summer wear, and OEKO-TEX certified materials for safe and sustainable clothing.'',
     str ''Which fabric is best for summer?'',
       str ''For summer, lightweight cotton, linen, and rayon fabrics are excellent due to their breathability and soft texture.'',
     str ''Which fabric is best for winter?'',
       str ''For winter, wool, fleece, heavy cotton, and flannel are highly suitable for warmth and comfort.'',
     str ''Do you offer custom tailoring?'',
       str ''Yes, we offer tailoring for selected items. Please share your measurements or preferred fit for assistance.'',
     str ''Do you provide size guidance?'',
       str ''Yes, we do! We offer sizes from XS to XXL, and I can help you choose the best fit based on your body measurements.'',
     str ''What sizes do you offer?'',
       str ''We offer sizes XS, S, M, L, XL, and XXL. For detailed measurements, please check our size chart.'',
     str ''Can I return an item?'',
       str ''Yes, items can be returned within 30 days, provided they are unused and have original tags attached.'',
     str ''How do I return an item?'',
       str ''To return an item, simply submit a return request through your order history or contact our support team. We will guide you through the steps.'',
     str ''Do you accept exchanges?'',
       str ''Yes, we accept exchanges within 30 days. The item should be unused and in its original condition.'',
     str ''What payment methods do you accept?'',
       str ''We accept credit cards, debit cards, UPI, PayPal, and net banking. For bulk orders, bank transfers are also supported.'',
     str ''Do you offer discounts?'',
       str ''Yes, we frequently offer seasonal sales, promotional codes, and special offers for loyalty members.'',
     str ''Are there any ongoing offers?'',
       str ''Currently, we have discounts on selected cotton fabrics and a 10% promotion on all linen products.'',
     str ''Do you offer wholesale or bulk pricing?'',
       str ''Yes, we do! For bulk or wholesale orders, please provide your quantity and we will share a customized quotation.'',
     str ''Do you offer international shipping?'',
       str ''Yes, we ship internationally. Charges and delivery times vary by location.'',
     str ''How long does delivery take?'',
       str ''Standard delivery takes 4'' @ [0x2013] @ str ''7 days, while express delivery takes 1'' @ [0x2013] @ str ''3 days depending on your region.'',
     str ''What is your shipping policy?'',
       str ''We offer free shipping on selected orders and charge a small fee for express delivery. Shipping details are shown at checkout.'',
     str ''Is COD available?'',
       str ''Yes, Cash on Delivery is available for select regions and order values.'',
     str ''Are your fabrics sustainable?'',
       str ''Yes, we offer a wide range of sustainable fabrics, including organic cotton, bamboo fabrics, and recycled polyester blends.'',
     str ''How should I wash cotton fabric?'',
       str ''For cotton fabrics, use mild detergent and cold water. Avoid direct sunlight for drying if you want to preserve color.'',
     str ''How should I wash linen?'',
       str ''Wash linen with gentle detergent in lukewarm water. Avoid harsh rubbing to maintain fabric texture.'',
     str ''Do your fabrics shrink?'',
       str ''Some natural fabrics like cotton and linen may have slight shrinkage. We recommend pre-washing before tailoring.'',
     str ''Can I track my order?'',
       str ''Yes, after placing your order, you will receive a tracking link via email or SMS.'',
     str ''Do you provide sample swatches?'',
       str ''Yes, we offer fabric swatches for selected materials so you can check texture and color before purchasing.'',
     str ''Can you recommend a fabric for formal wear?'',
       str ''For formal wear, we suggest premium cotton, satin blends, silk blends, and wrinkle-resistant fabrics.'',
     str ''Can you recommend a fabric for kids?'',
       str ''For kids, soft and breathable fabrics like cotton, jersey knit, and bamboo fabric are ideal.'',
     str ''Thank you'',
       str ''You're welcome! If you need any more help, feel free to ask.'',
     str ''Thanks'',
       str ''My pleasure! Let me know if you have any other questions.'',
     str ''Goodbye'',
       str ''Goodbye! Have a great day and feel free to visit again.''
  ]"

text \<open>
  The first loop of \<open>fallback_get_response\<close> in app.py:
  \<^verbatim>\<open>
    mapping = {}
    for i in range(0, len(CONVERSATION)-1, 2):
        k = CONVERSATION[i].strip().lower()
        v = CONVERSATION[i+1]
        mapping[k] = v
  \<close>
  The list it reads is a global of the module; the model takes it as the argument
  \<open>conv\<close>, so that the loop can be studied on any list.
\<close>

fun build_loop :: "(str \<Rightarrow> str) \<Rightarrow> str list \<Rightarrow> nat list \<Rightarrow> (str, str) dict \<Rightarrow> error + (str, str) dict" where
  "build_loop U conv [] mapping = Inr mapping"
| "build_loop U conv (i # is) mapping =
     (case list_getitem conv i of
        Inl e \<Rightarrow> Inl e
      | Inr p \<Rightarrow>
         (let k = lower U (strip p) in
          case list_getitem conv (i + 1) of
            Inl e \<Rightarrow> Inl e
          | Inr v \<Rightarrow> build_loop U conv is (AList.update k v mapping)))"

definition build_mapping :: "(str \<Rightarrow> str) \<Rightarrow> str list \<Rightarrow> error + (str, str) dict" where
  "build_mapping U conv = build_loop U conv (range_step2 (int (length conv) - 1)) []"

section \<open>difflib: the similarity ratio and \<open>get_close_matches\<close>\<close>

text \<open>
  app.py calls \<open>difflib.get_close_matches(key, mapping.keys(), n=1, cutoff=0.6)\<close> of the
  Python standard library. The functions below follow \<open>Lib/difflib.py\<close> and
  \<open>heapq.nlargest\<close> for this call: a \<open>SequenceMatcher\<close> with \<open>isjunk=None\<close> and
  \<open>autojunk=True\<close>, whose second sequence \<open>b\<close> is the word and whose first sequence
  \<open>a\<close> is each possibility in turn. Sequences are lists over any element type.

  Python floats: a ratio is the float nearest to the quotient \<open>2.0*matches/length\<close>, and
  the cutoff is the float nearest to \<open>0.6\<close>. The model computes with the exact quotients.
  Rounding to the nearest float is monotone, and two different quotients of natural
  numbers below \<open>10^7\<close> are further apart than the rounding error, so on sequences of
  fewer than ten million elements every comparison of the model has the outcome of the
  float comparison.

  \<open>get_close_matches\<close> raises \<open>ValueError\<close> only for \<open>n \<le> 0\<close> or a cutoff outside
  \<open>[0, 1]\<close>, which this call excludes. The reads \<open>a[i]\<close> and \<open>b[j]\<close> of the matcher are
  in range: the loops guard them, and every window that \<open>get_matching_blocks\<close> passes
  on lies inside the two sequences (lemma \<open>common_split\<close>); so \<open>!\<close> stands for the read.
\<close>

definition calculate_ratio :: "nat \<Rightarrow> nat \<Rightarrow> real" where
  "calculate_ratio matches len = (if len \<noteq> 0 then 2 * real matches / real len else 1)"

subsection \<open>\<open>__chain_b\<close>: where each element occurs in \<open>b\<close>\<close>

text \<open>
  \<open>b2j\<close> maps each element of \<open>b\<close> to the increasing list of the indices where it
  occurs. With no junk function the junk set stays empty. When \<open>b\<close> has at least 200
  elements, an element that occurs more than \<open>len(b) // 100 + 1\<close> times is popular and
  its entry is deleted from \<open>b2j\<close>. \<open>b2j_get b elt\<close> is \<open>b2j.get(elt, [])\<close> after that.
\<close>

fun indices_from :: "nat \<Rightarrow> 'a list \<Rightarrow> 'a \<Rightarrow> nat list" where
  "indices_from i [] elt = []"
| "indices_from i (x # xs) elt =
     (if x = elt then i # indices_from (i + 1) xs elt else indices_from (i + 1) xs elt)"

definition popular :: "'a list \<Rightarrow> 'a \<Rightarrow> bool" where
  "popular b elt \<longleftrightarrow>
     length b \<ge> 200 \<and> length (indices_from 0 b elt) > length b div 100 + 1"

definition b2j_get :: "'a list \<Rightarrow> 'a \<Rightarrow> nat list" where
  "b2j_get b elt = (if popular b elt then [] else indices_from 0 b elt)"

subsection \<open>\<open>find_longest_match\<close>\<close>

text \<open>
  The dictionaries \<open>j2len\<close> and \<open>newj2len\<close> are only read through \<open>get(j, 0)\<close> and only
  hold positive lengths, so each is a function from indices to lengths, \<open>0\<close> where the
  key is absent; the key \<open>-1\<close> of \<open>j2len.get(j-1, 0)\<close> at \<open>j = 0\<close> is never present.
  \<open>i-k+1\<close> is written \<open>i + 1 - k\<close>: \<open>k\<close> never exceeds \<open>i + 1\<close>
  (lemma \<open>flm_outer_inv\<close>), so the subtraction on naturals is exact.

  The inner loop, over the indices \<open>j\<close> of \<open>b2j.get(a[i], nothing)\<close>:
  \<^verbatim>\<open>
    if j < blo: continue
    if j >= bhi: break
    k = newj2len[j] = j2lenget(j-1, 0) + 1
    if k > bestsize:
        besti, bestj, bestsize = i-k+1, j-k+1, k
  \<close>
\<close>

type_synonym flm_state = "(nat \<Rightarrow> nat) \<times> nat \<times> nat \<times> nat"

fun flm_inner :: "nat \<Rightarrow> nat \<Rightarrow> nat \<Rightarrow> (nat \<Rightarrow> nat) \<Rightarrow> nat list \<Rightarrow> flm_state \<Rightarrow> flm_state" where
  "flm_inner i blo bhi j2len [] st = st"
| "flm_inner i blo bhi j2len (j # js) (newj2len, besti, bestj, bestsize) =
     (if j < blo then flm_inner i blo bhi j2len js (newj2len, besti, bestj, bestsize)
      else if j \<ge> bhi then (newj2len, besti, bestj, bestsize)
      else
        let k = (if j = 0 then 0 else j2len (j - 1)) + 1 in
        if k > bestsize
        then flm_inner i blo bhi j2len js (newj2len(j := k), i + 1 - k, j + 1 - k, k)
        else flm_inner i blo bhi j2len js (newj2len(j := k), besti, bestj, bestsize))"

text \<open>The outer loop \<open>for i in range(alo, ahi)\<close>; each round starts a fresh \<open>newj2len\<close>.\<close>

fun flm_outer :: "'a list \<Rightarrow> 'a list \<Rightarrow> nat \<Rightarrow> nat \<Rightarrow> nat list \<Rightarrow> flm_state \<Rightarrow> flm_state" where
  "flm_outer a b blo bhi [] st = st"
| "flm_outer a b blo bhi (i # is) (j2len, besti, bestj, bestsize) =
     flm_outer a b blo bhi is
       (flm_inner i blo bhi j2len (b2j_get b (a ! i)) (\<lambda>_. 0, besti, bestj, bestsize))"

text \<open>
  The two loops that extend the best match over equal elements at each end. No element
  is junk, so the two further loops of the source, which extend over junk, never run.
\<close>

function extend_left :: "'a list \<Rightarrow> 'a list \<Rightarrow> nat \<Rightarrow> nat \<Rightarrow> nat \<times> nat \<times> nat \<Rightarrow> nat \<times> nat \<times> nat" where
  "extend_left a b alo blo (besti, bestj, bestsize) =
     (if besti > alo \<and> bestj > blo \<and> a ! (besti - 1) = b ! (bestj - 1)
      then extend_left a b alo blo (besti - 1, bestj - 1, bestsize + 1)
      else (besti, bestj, bestsize))"
  by pat_completeness auto
termination
  by (relation "measure (\<lambda>(a, b, alo, blo, besti, bestj, bestsize). besti)") auto

function extend_right :: "'a list \<Rightarrow> 'a list \<Rightarrow> nat \<Rightarrow> nat \<Rightarrow> nat \<times> nat \<times> nat \<Rightarrow> nat \<times> nat \<times> nat" where
  "extend_right a b ahi bhi (besti, bestj, bestsize) =
     (if besti + bestsize < ahi \<and> bestj + bestsize < bhi \<and>
         a ! (besti + bestsize) = b ! (bestj + bestsize)
      then extend_right a b ahi bhi (besti, bestj, bestsize + 1)
      else (besti, bestj, bestsize))"
  by pat_completeness auto
termination
  by (relation "measure (\<lambda>(a, b, ahi, bhi, besti, bestj, bestsize). ahi - (besti + bestsize))") auto

definition find_longest_match :: "'a list \<Rightarrow> 'a list \<Rightarrow> nat \<Rightarrow> nat \<Rightarrow> nat \<Rightarrow> nat \<Rightarrow> nat \<times> nat \<times> nat" where
  "find_longest_match a b alo ahi blo bhi =
     (case flm_outer a b blo bhi [alo..<ahi] (\<lambda>_. 0, alo, blo, 0) of
        (j2len, besti, bestj, bestsize) \<Rightarrow>
          extend_right a b ahi bhi (extend_left a b alo blo (besti, bestj, bestsize)))"

declare extend_left.simps [simp del] extend_right.simps [simp del]

subsection \<open>\<open>get_matching_blocks\<close> and \<open>ratio\<close>\<close>

text \<open>
  The work list of \<open>get_matching_blocks\<close>: \<open>queue.pop()\<close> takes the window appended
  last, so the head of the model's list is the end of the Python list.
  \<^verbatim>\<open>
    while queue:
        alo, ahi, blo, bhi = queue.pop()
        i, j, k = x = self.find_longest_match(alo, ahi, blo, bhi)
        if k:
            matching_blocks.append(x)
            if alo < i and blo < j:
                queue.append((alo, i, blo, j))
            if i+k < ahi and j+k < bhi:
                queue.append((i+k, ahi, j+k, bhi))
  \<close>
  The loop ends: a block of positive size lies inside its window, so the windows that
  replace a window are shorter in \<open>a\<close>; the termination proof follows the properties of
  \<open>find_longest_match\<close> below.
\<close>

type_synonym window = "nat \<times> nat \<times> nat \<times> nat"

function gmb_loop :: "'a list \<Rightarrow> 'a list \<Rightarrow> window list \<Rightarrow> (nat \<times> nat \<times> nat) list \<Rightarrow> (nat \<times> nat \<times> nat) list" where
  "gmb_loop a b [] matching_blocks = matching_blocks"
| "gmb_loop a b ((alo, ahi, blo, bhi) # queue) matching_blocks =
     (case find_longest_match a b alo ahi blo bhi of
        (i, j, k) \<Rightarrow>
          if k \<noteq> 0 then
            let queue1 = (if alo < i \<and> blo < j then (alo, i, blo, j) # queue else queue);
                queue2 = (if i + k < ahi \<and> j + k < bhi then (i + k, ahi, j + k, bhi) # queue1
                          else queue1)
            in gmb_loop a b queue2 (matching_blocks @ [(i, j, k)])
          else gmb_loop a b queue matching_blocks)"
  by pat_completeness auto

definition window_weight :: "window \<Rightarrow> nat" where
  "window_weight w = (case w of (alo, ahi, blo, bhi) \<Rightarrow> 2 * (ahi - alo) + 1)"

text \<open>
  After \<open>matching_blocks.sort()\<close> (tuples compare lexicographically), adjacent blocks
  are merged, starting from the dummy \<open>i1 = j1 = k1 = 0\<close>, and the sentinel
  \<open>(la, lb, 0)\<close> is appended.
\<close>

fun collapse :: "(nat \<times> nat \<times> nat) list \<Rightarrow> nat \<times> nat \<times> nat \<Rightarrow> (nat \<times> nat \<times> nat) list \<Rightarrow> (nat \<times> nat \<times> nat) list" where
  "collapse [] (i1, j1, k1) non_adjacent =
     (if k1 \<noteq> 0 then non_adjacent @ [(i1, j1, k1)] else non_adjacent)"
| "collapse ((i2, j2, k2) # rest) (i1, j1, k1) non_adjacent =
     (if i1 + k1 = i2 \<and> j1 + k1 = j2 then collapse rest (i1, j1, k1 + k2) non_adjacent
      else collapse rest (i2, j2, k2)
             (if k1 \<noteq> 0 then non_adjacent @ [(i1, j1, k1)] else non_adjacent))"

definition get_matching_blocks :: "'a list \<Rightarrow> 'a list \<Rightarrow> (nat \<times> nat \<times> nat) list" where
  "get_matching_blocks a b =
     (let la = length a; lb = length b;
          matching_blocks = sort (gmb_loop a b [(0, la, 0, lb)] [])
      in collapse matching_blocks (0, 0, 0) [] @ [(la, lb, 0)])"

text \<open>\<open>ratio\<close>: \<open>sum(triple[-1] for triple in self.get_matching_blocks())\<close> over the total length.\<close>

definition ratio :: "'a list \<Rightarrow> 'a list \<Rightarrow> real" where
  "ratio a b =
     (let matches = sum_list (map (\<lambda>(i, j, k). k) (get_matching_blocks a b))
      in calculate_ratio matches (length a + length b))"

subsection \<open>\<open>quick_ratio\<close> and \<open>real_quick_ratio\<close>\<close>

text \<open>
  \<open>fullbcount\<close> counts the occurrences in \<open>b\<close> and is read through \<open>get(elt, 0)\<close>: a
  function into the naturals. \<open>avail\<close> is a dictionary of integers (\<open>numb - 1\<close> goes below
  zero); \<open>availhas(elt)\<close> is whether \<open>elt\<close> is one of its keys.
\<close>

definition fullbcount :: "'a list \<Rightarrow> 'a \<Rightarrow> nat" where
  "fullbcount b = fold (\<lambda>elt fbc. fbc(elt := fbc elt + 1)) b (\<lambda>_. 0)"

fun quick_loop :: "('a \<Rightarrow> nat) \<Rightarrow> 'a list \<Rightarrow> ('a \<rightharpoonup> int) \<Rightarrow> nat \<Rightarrow> nat" where
  "quick_loop fbc [] avail matches = matches"
| "quick_loop fbc (elt # rest) avail matches =
     (let numb = (case avail elt of Some n \<Rightarrow> n | None \<Rightarrow> int (fbc elt))
      in quick_loop fbc rest (avail(elt \<mapsto> numb - 1))
           (if numb > 0 then matches + 1 else matches))"

definition quick_ratio :: "'a list \<Rightarrow> 'a list \<Rightarrow> real" where
  "quick_ratio a b =
     calculate_ratio (quick_loop (fullbcount b) a Map.empty 0) (length a + length b)"

definition real_quick_ratio :: "'a list \<Rightarrow> 'a list \<Rightarrow> real" where
  "real_quick_ratio a b =
     (let la = length a; lb = length b in calculate_ratio (min la lb) (la + lb))"

subsection \<open>\<open>get_close_matches\<close> with \<open>n=1\<close>\<close>

text \<open>
  \<^verbatim>\<open>
    for x in possibilities:
        s.set_seq1(x)
        if s.real_quick_ratio() >= cutoff and \
           s.quick_ratio() >= cutoff and \
           s.ratio() >= cutoff:
            result.append((s.ratio(), x))
    result = _nlargest(n, result)
    return [x for score, x in result]
  \<close>
  \<open>and\<close> evaluates its right operand only when the left one holds, hence the nested
  conditionals. For \<open>n == 1\<close>, \<open>heapq.nlargest\<close> returns \<open>[max(iterable)]\<close>, or \<open>[]\<close> for an
  empty iterable. \<open>max\<close> keeps the first item until a later one is greater. The items
  are tuples \<open>(score, x)\<close>, compared lexicographically, the strings by code points: the
  orders of \<open>Product_Lexorder\<close> and \<open>List_Lexorder\<close>.
\<close>

fun gcm_loop :: "'a list \<Rightarrow> real \<Rightarrow> 'a list list \<Rightarrow> (real \<times> 'a list) list \<Rightarrow> (real \<times> 'a list) list" where
  "gcm_loop word cutoff [] result = result"
| "gcm_loop word cutoff (x # possibilities) result =
     gcm_loop word cutoff possibilities
       (if real_quick_ratio x word \<ge> cutoff then
          if quick_ratio x word \<ge> cutoff then
            if ratio x word \<ge> cutoff then result @ [(ratio x word, x)] else result
          else result
        else result)"

fun py_max :: "'b::linorder \<Rightarrow> 'b list \<Rightarrow> 'b" where
  "py_max max_item [] = max_item"
| "py_max max_item (item # rest) = py_max (if item > max_item then item else max_item) rest"

definition nlargest1 :: "'b::linorder list \<Rightarrow> 'b list" where
  "nlargest1 iterable = (case iterable of [] \<Rightarrow> [] | first # rest \<Rightarrow> [py_max first rest])"

definition get_close_matches :: "'a::linorder list \<Rightarrow> 'a list list \<Rightarrow> real \<Rightarrow> 'a list list" where
  "get_close_matches word possibilities cutoff =
     map snd (nlargest1 (gcm_loop word cutoff possibilities []))"

section \<open>app.py: the fallback responder\<close>

text \<open>
  The rest of \<open>fallback_get_response\<close>, on the dictionary \<open>mapping\<close> that the first loop
  built:
  \<^verbatim>\<open>
    key = user_text.strip().lower()
    if key in mapping:
        return mapping[key]
    close = difflib.get_close_matches(key, mapping.keys(), n=1, cutoff=0.6)
    if close:
        return mapping[close[0]]
    if any(word in key for word in ["hi", "hello", "hey"]):
        return mapping.get("hello", "Hello!")
    if any(word in key for word in ["thank", "thanks"]):
        return mapping.get("thank you", "You're welcome!")
    if "return" in key or "refund" in key:
        return mapping.get("can i return an item?", "Yes, items can be ...")
    return "Sorry ... returns?"
  \<close>
  \<open>keyword_rules\<close> is the part after the two look-ups; \<open>mapping[k]\<close> raises \<open>KeyError\<close>
  on a missing key, so the result of \<open>respond\<close> is an exception or a reply.
\<close>

definition generic_fallback :: str where
  "generic_fallback = str ''Sorry '' @ [0x2014] @ str '' I don't have a precise answer for that yet. Could you rephrase or ask about fabrics, sizes, orders, or returns?''"

definition keyword_rules :: "(str, str) dict \<Rightarrow> str \<Rightarrow> str" where
  "keyword_rules mapping key =
     (if list_ex (\<lambda>word. contains word key) [str ''hi'', str ''hello'', str ''hey'']
      then dict_get mapping (str ''hello'') (str ''Hello!'')
      else if list_ex (\<lambda>word. contains word key) [str ''thank'', str ''thanks'']
      then dict_get mapping (str ''thank you'') (str ''You're welcome!'')
      else if contains (str ''return'') key \<or> contains (str ''refund'') key
      then dict_get mapping (str ''can i return an item?'')
             (str ''Yes, items can be returned within 30 days, provided they are unused and have original tags attached.'')
      else generic_fallback)"

definition respond :: "(str \<Rightarrow> str) \<Rightarrow> (str, str) dict \<Rightarrow> str \<Rightarrow> error + str" where
  "respond U mapping user_text =
     (let key = lower U (strip user_text) in
      if key \<in> set (dict_keys mapping) then dict_getitem mapping key
      else
        case get_close_matches key (dict_keys mapping) (6 / 10) of
          c # _ \<Rightarrow> dict_getitem mapping c
        | [] \<Rightarrow> Inr (keyword_rules mapping key))"

definition fallback_get_response :: "(str \<Rightarrow> str) \<Rightarrow> str \<Rightarrow> error + str" where
  "fallback_get_response U user_text =
     (case build_mapping U CONVERSATION of
        Inl e \<Rightarrow> Inl e
      | Inr mapping \<Rightarrow> respond U mapping user_text)"

section \<open>main.py: the fallback responder of the desktop program\<close>

text \<open>
  \<^verbatim>\<open>
    mapping = { "hello": ..., "hi": ..., ... }
    key = text_input.strip().lower()
    return mapping.get(key, "Sorry, I don't have an answer for that yet. ...")
  \<close>
\<close>

definition main_mapping :: "(str, str) dict" where
  "main_mapping = [
     (str ''hello'',
       str ''Hello! Welcome to our textile and clothing store. How may I assist you today?''),
     (str ''hi'',
       str ''Hi there! How can I help you with fabrics or clothing today?''),
     (str ''what are the latest clothing trends?'',
       str ''Current trends include breathable fabrics like cotton and linen, oversized fits, pastel colors, and sustainable eco-friendly materials.''),
     (str ''which fabric is best for summer?'',
       str ''For summer, lightweight cotton, linen, and rayon fabrics are excellent due to their breathability and soft texture.''),
     (str ''thank you'',
       str ''You're welcome! If you need any more help, feel free to ask.''),
     (str ''thanks'',
       str ''My pleasure! Let me know if you have any other questions.''),
     (str ''goodbye'',
       str ''Goodbye! Have a great day and feel free to visit again.'')
  ]"

definition main_fallback_get_response :: "(str \<Rightarrow> str) \<Rightarrow> str \<Rightarrow> str" where
  "main_fallback_get_response U text_input =
     (let key = lower U (strip text_input) in
      dict_get main_mapping key
        (str ''Sorry, I don't have an answer for that yet. Could you try rephrasing?''))"

section \<open>Sentiment\<close>

text \<open>
  \<open>sia.polarity_scores\<close> is NLTK's VADER scorer; it is not part of the repository and is
  the parameter \<open>polarity_scores\<close>: a function from the text to a dictionary of scores.
  A score is a Python float; the functions only compare it with \<open>0.5\<close> and \<open>-0.5\<close>,
  which floats represent exactly, and return it, so a score is modelled by the real
  number it denotes (not-a-number is not modelled).

  app.py:
  \<^verbatim>\<open>
    scores = sia.polarity_scores(text)
    compound = scores.get('compound', 0.0)
    if compound >= 0.5: label = "Positive"
    elif compound <= -0.5: label = "Negative"
    else: label = "Neutral"
    return {"label": label, "score": compound, "details": scores}
  \<close>
  main.py reads \<open>scores['compound']\<close>, which raises \<open>KeyError\<close> when the key is missing,
  and returns the pair \<open>(label, compound)\<close>.
\<close>

record sentiment =
  label :: str
  score :: real
  details :: "(str, real) dict"

definition analyze_sentiment :: "(str \<Rightarrow> (str, real) dict) \<Rightarrow> str \<Rightarrow> sentiment" where
  "analyze_sentiment polarity_scores text =
     (let scores = polarity_scores text;
          compound = dict_get scores (str ''compound'') 0
      in \<lparr>label = (if compound \<ge> 0.5 then str ''Positive''
                  else if compound \<le> - 0.5 then str ''Negative''
                  else str ''Neutral''),
          score = compound, details = scores\<rparr>)"

definition get_sentiment_label :: "(str \<Rightarrow> (str, real) dict) \<Rightarrow> str \<Rightarrow> error + str \<times> real" where
  "get_sentiment_label polarity_scores text_input =
     (case dict_getitem (polarity_scores text_input) (str ''compound'') of
        Inl e \<Rightarrow> Inl e
      | Inr compound \<Rightarrow>
          if compound \<ge> 0.5 then Inr (str ''Positive'', compound)
          else if compound \<le> - 0.5 then Inr (str ''Negative'', compound)
          else Inr (str ''Neutral'', compound))"

section \<open>Properties of the difflib functions\<close>

subsection \<open>What \<open>find_longest_match\<close> returns\<close>

text \<open>
  For every window, also an empty or ill-formed one, the block \<open>(i, j, k)\<close> returned
  starts inside the window, a block of positive size ends inside it, and
  \<open>a[i:i+k] == b[j:j+k]\<close> element by element. The invariants: \<open>prev_ok\<close> for \<open>j2len\<close>
  when round \<open>i\<close> starts (matches ending at \<open>a[i-1]\<close>), \<open>row_ok\<close> for \<open>newj2len\<close>
  during round \<open>i\<close> (matches ending at \<open>a[i]\<close>), \<open>best_ok\<close> for the best block so far.
\<close>

lemma indices_from_set:
  "j \<in> set (indices_from i b elt) \<longleftrightarrow> (\<exists>t<length b. j = i + t \<and> b ! t = elt)"
proof (induction b arbitrary: i)
  case Nil
  then show ?case by simp
next
  case (Cons x xs)
  have "(\<exists>t<length (x # xs). j = i + t \<and> (x # xs) ! t = elt) \<longleftrightarrow>
        (j = i \<and> x = elt) \<or> (\<exists>t<length xs. j = Suc i + t \<and> xs ! t = elt)"
    by (auto simp: less_Suc_eq_0_disj)
  with Cons show ?case by auto
qed

lemma b2j_get_elem: "j \<in> set (b2j_get b elt) \<Longrightarrow> j < length b \<and> b ! j = elt"
  by (auto simp: b2j_get_def indices_from_set split: if_splits)

definition ends_match :: "'a list \<Rightarrow> 'a list \<Rightarrow> nat \<Rightarrow> nat \<Rightarrow> nat \<Rightarrow> bool" where
  "ends_match a b i j k \<longleftrightarrow> (\<forall>t<k. a ! (i - t) = b ! (j - t))"

definition row_ok :: "'a list \<Rightarrow> 'a list \<Rightarrow> nat \<Rightarrow> nat \<Rightarrow> nat \<Rightarrow> nat \<Rightarrow> (nat \<Rightarrow> nat) \<Rightarrow> bool" where
  "row_ok a b alo blo bhi i j2len \<longleftrightarrow>
     (\<forall>j. 0 < j2len j \<longrightarrow>
        alo + j2len j \<le> Suc i \<and> blo + j2len j \<le> Suc j \<and> j < bhi \<and> ends_match a b i j (j2len j))"

definition best_ok :: "'a list \<Rightarrow> 'a list \<Rightarrow> nat \<Rightarrow> nat \<Rightarrow> nat \<Rightarrow> nat \<Rightarrow> nat \<times> nat \<times> nat \<Rightarrow> bool" where
  "best_ok a b alo blo bhi n st \<longleftrightarrow>
     (case st of (besti, bestj, bestsize) \<Rightarrow>
        alo \<le> besti \<and> blo \<le> bestj \<and>
        (if bestsize = 0 then besti = alo \<and> bestj = blo
         else besti + bestsize \<le> n \<and> bestj + bestsize \<le> bhi) \<and>
        (\<forall>t<bestsize. a ! (besti + t) = b ! (bestj + t)))"

definition prev_ok :: "'a list \<Rightarrow> 'a list \<Rightarrow> nat \<Rightarrow> nat \<Rightarrow> nat \<Rightarrow> nat \<Rightarrow> (nat \<Rightarrow> nat) \<Rightarrow> bool" where
  "prev_ok a b alo blo bhi i j2len \<longleftrightarrow>
     (\<forall>j. 0 < j2len j \<longrightarrow>
        alo + j2len j \<le> i \<and> blo + j2len j \<le> Suc j \<and> j < bhi \<and>
        (\<forall>t<j2len j. a ! (i - 1 - t) = b ! (j - t)))"

lemma flm_inner_inv:
  assumes "prev_ok a b alo blo bhi i j2len" "alo \<le> i"
    and "\<forall>j\<in>set js. b ! j = a ! i"
    and "row_ok a b alo blo bhi i newj2len"
    and "best_ok a b alo blo bhi (Suc i) (besti, bestj, bestsize)"
    and "flm_inner i blo bhi j2len js (newj2len, besti, bestj, bestsize) = (n', st')"
  shows "row_ok a b alo blo bhi i n' \<and> best_ok a b alo blo bhi (Suc i) st'"
  using assms(3-)
proof (induction js arbitrary: newj2len besti bestj bestsize)
  case Nil
  then show ?case by simp
next
  case (Cons j js)
  show ?case
  proof (cases "j < blo")
    case True
    with Cons show ?thesis by simp
  next
    case lo: False
    show ?thesis
    proof (cases "j \<ge> bhi")
      case True
      with lo Cons show ?thesis by simp
    next
      case hi: False
      define k where "k = (if j = 0 then 0 else j2len (j - 1)) + 1"
      have bj: "b ! j = a ! i" using Cons.prems(1) by simp
      have kpos: "0 < k" by (simp add: k_def)
      have kb: "alo + k \<le> Suc i \<and> blo + k \<le> Suc j \<and> (\<forall>t<k. a ! (i - t) = b ! (j - t))"
      proof (cases "j = 0 \<or> j2len (j - 1) = 0")
        case True
        then have "k = 1" by (auto simp: k_def)
        with lo bj assms(2) show ?thesis by simp
      next
        case False
        then have j0: "j \<noteq> 0" and p: "0 < j2len (j - 1)" by auto
        from assms(1) p have q: "alo + j2len (j - 1) \<le> i" "blo + j2len (j - 1) \<le> Suc (j - 1)"
          "\<forall>t<j2len (j - 1). a ! (i - 1 - t) = b ! (j - 1 - t)"
          unfolding prev_ok_def by blast+
        have k: "k = Suc (j2len (j - 1))" using j0 by (simp add: k_def)
        have "a ! (i - t) = b ! (j - t)" if "t < k" for t
        proof (cases t)
          case 0
          then show ?thesis using bj by simp
        next
          case (Suc t')
          with that k have "t' < j2len (j - 1)" by simp
          with q(3) have "a ! (i - 1 - t') = b ! (j - 1 - t')" by blast
          then show ?thesis using Suc by simp
        qed
        with q(1,2) j0 k show ?thesis by auto
      qed
      have row': "row_ok a b alo blo bhi i (newj2len(j := k))"
        using Cons.prems(2) kb hi unfolding row_ok_def ends_match_def by auto
      have best': "best_ok a b alo blo bhi (Suc i) (i + 1 - k, j + 1 - k, k)"
      proof -
        have "a ! (i + 1 - k + t) = b ! (j + 1 - k + t)" if "t < k" for t
        proof -
          have "k - 1 - t < k" using that by simp
          with kb have h: "a ! (i - (k - 1 - t)) = b ! (j - (k - 1 - t))" by blast
          have e: "i - (k - 1 - t) = i + 1 - k + t" "j - (k - 1 - t) = j + 1 - k + t"
            using that kb by linarith+
          show ?thesis using h unfolding e .
        qed
        with kb kpos hi show ?thesis unfolding best_ok_def by auto
      qed
      show ?thesis
      proof (cases "k > bestsize")
        case True
        have "flm_inner i blo bhi j2len js (newj2len(j := k), i + 1 - k, j + 1 - k, k) = (n', st')"
          using Cons.prems(4) lo hi True by (simp add: k_def Let_def)
        from Cons.IH[OF _ row' best' this] Cons.prems(1) show ?thesis by simp
      next
        case False
        have "flm_inner i blo bhi j2len js (newj2len(j := k), besti, bestj, bestsize) = (n', st')"
          using Cons.prems(4) lo hi False by (simp add: k_def Let_def)
        from Cons.IH[OF _ row' Cons.prems(3) this] Cons.prems(1) show ?thesis by simp
      qed
    qed
  qed
qed


lemma row_ok_prev_ok: "row_ok a b alo blo bhi i f \<Longrightarrow> prev_ok a b alo blo bhi (Suc i) f"
  unfolding row_ok_def prev_ok_def ends_match_def by simp

lemma best_ok_mono: "best_ok a b alo blo bhi n st \<Longrightarrow> n \<le> n' \<Longrightarrow> best_ok a b alo blo bhi n' st"
  unfolding best_ok_def by (auto split: prod.splits if_splits)

lemma flm_outer_inv:
  assumes "is = [i..<ahi]" "alo \<le> i"
    and "prev_ok a b alo blo bhi i j2len"
    and "best_ok a b alo blo bhi i st"
  shows "best_ok a b alo blo bhi (max i ahi) (snd (flm_outer a b blo bhi is (j2len, st)))"
  using assms
proof (induction "is" arbitrary: i j2len st)
  case Nil
  then show ?case by (auto elim: best_ok_mono)
next
  case (Cons i' is')
  from Cons.prems(1)[symmetric] have i': "i' = i" and lt: "i < ahi" and is': "is' = [Suc i..<ahi]"
    by (auto simp: upt_eq_Cons_conv)
  obtain besti bestj bestsize where st: "st = (besti, bestj, bestsize)"
    by (cases st) auto
  obtain n' st' where inner:
    "flm_inner i blo bhi j2len (b2j_get b (a ! i)) (\<lambda>_. 0, besti, bestj, bestsize) = (n', st')"
    by (cases "flm_inner i blo bhi j2len (b2j_get b (a ! i)) (\<lambda>_. 0, besti, bestj, bestsize)") auto
  have el: "\<forall>j\<in>set (b2j_get b (a ! i)). b ! j = a ! i"
    using b2j_get_elem by fastforce
  have r0: "row_ok a b alo blo bhi i (\<lambda>_. 0)"
    by (simp add: row_ok_def)
  have b0: "best_ok a b alo blo bhi (Suc i) (besti, bestj, bestsize)"
    using Cons.prems(4) st by (auto elim: best_ok_mono)
  from flm_inner_inv[OF Cons.prems(3) Cons.prems(2) el r0 b0 inner]
  have r: "prev_ok a b alo blo bhi (Suc i) n'" and b: "best_ok a b alo blo bhi (Suc i) st'"
    by (auto intro: row_ok_prev_ok)
  have "best_ok a b alo blo bhi (max (Suc i) ahi) (snd (flm_outer a b blo bhi is' (n', st')))"
    using Cons.prems(2) by (intro Cons.IH[OF is' _ r b]) simp
  moreover have "max (Suc i) ahi = max i ahi" using lt by simp
  ultimately show ?case
    using inner by (simp add: i' st)
qed

lemma extend_left_ok:
  "best_ok a b alo blo bhi n st \<Longrightarrow> best_ok a b alo blo bhi n (extend_left a b alo blo st)"
proof (induction a b alo blo st rule: extend_left.induct)
  case (1 a b alo blo besti bestj bestsize)
  show ?case
  proof (cases "besti > alo \<and> bestj > blo \<and> a ! (besti - 1) = b ! (bestj - 1)")
    case True
    have "a ! (besti - 1 + t) = b ! (bestj - 1 + t)" if "t < bestsize + 1" for t
    proof (cases t)
      case 0
      then show ?thesis using True by simp
    next
      case (Suc t')
      with that have "t' < bestsize" by simp
      with 1(2) have "a ! (besti + t') = b ! (bestj + t')"
        unfolding best_ok_def by simp
      with Suc True show ?thesis by simp
    qed
    with True 1(2) have "best_ok a b alo blo bhi n (besti - 1, bestj - 1, bestsize + 1)"
      unfolding best_ok_def by (auto split: if_splits)
    with True 1(1) show ?thesis by (subst extend_left.simps) simp
  next
    case False
    with 1(2) show ?thesis by (subst extend_left.simps) auto
  qed
qed

lemma extend_right_ok:
  "best_ok a b alo blo bhi ahi st \<Longrightarrow> best_ok a b alo blo bhi ahi (extend_right a b ahi bhi st)"
proof (induction a b ahi bhi st rule: extend_right.induct)
  case (1 a b ahi bhi besti bestj bestsize)
  show ?case
  proof (cases "besti + bestsize < ahi \<and> bestj + bestsize < bhi \<and>
         a ! (besti + bestsize) = b ! (bestj + bestsize)")
    case True
    with 1(2) have "best_ok a b alo blo bhi ahi (besti, bestj, bestsize + 1)"
      unfolding best_ok_def by (auto simp: less_Suc_eq)
    with True 1(1) show ?thesis by (subst extend_right.simps) simp
  next
    case False
    with 1(2) show ?thesis by (subst extend_right.simps) auto
  qed
qed

lemma find_longest_match_ok:
  "best_ok a b alo blo bhi ahi (find_longest_match a b alo ahi blo bhi)"
proof -
  have p0: "prev_ok a b alo blo bhi alo (\<lambda>_. 0)" by (simp add: prev_ok_def)
  have b0: "best_ok a b alo blo bhi alo (alo, blo, 0)" by (simp add: best_ok_def)
  have *: "best_ok a b alo blo bhi (max alo ahi)
      (snd (flm_outer a b blo bhi [alo..<ahi] (\<lambda>_. 0, alo, blo, 0)))"
    by (rule flm_outer_inv[OF refl order_refl p0 b0])
  have "best_ok a b alo blo bhi ahi
      (snd (flm_outer a b blo bhi [alo..<ahi] (\<lambda>_. 0, alo, blo, 0)))"
  proof (cases "alo \<le> ahi")
    case True
    with * show ?thesis by (simp add: max_def)
  next
    case False
    then show ?thesis by (simp add: best_ok_def)
  qed
  then show ?thesis
    unfolding find_longest_match_def
    by (auto split: prod.splits intro!: extend_right_ok extend_left_ok)
qed

lemma find_longest_match_bounds:
  assumes "find_longest_match a b alo ahi blo bhi = (i, j, k)"
  shows "alo \<le> i" "blo \<le> j" "k \<noteq> 0 \<Longrightarrow> i + k \<le> ahi" "k \<noteq> 0 \<Longrightarrow> j + k \<le> bhi"
    "t < k \<Longrightarrow> a ! (i + t) = b ! (j + t)"
  using find_longest_match_ok[of a b alo blo bhi ahi] assms
  unfolding best_ok_def by (auto split: if_splits)

subsection \<open>The work list of \<open>get_matching_blocks\<close> runs empty\<close>

lemma find_longest_match_window:
  "(i, j, k) = find_longest_match a b alo ahi blo bhi \<Longrightarrow> alo \<le> i \<and> (0 < k \<longrightarrow> i + k \<le> ahi)"
  using find_longest_match_bounds(1,3)[of a b alo ahi blo bhi i j k] by simp

termination gmb_loop
  apply (relation "measure (\<lambda>(a, b, queue, blocks). sum_list (map window_weight queue))")
    apply simp
   apply (auto simp: window_weight_def dest!: find_longest_match_window)
  done

subsection \<open>The ratio is bounded by its two quick estimates\<close>

text \<open>
  The blocks that \<open>get_matching_blocks\<close> finds lie in disjoint parts of \<open>a\<close> and of \<open>b\<close>
  and each is an equal stretch of both, so their sizes add up to at most the size of the
  intersection of \<open>a\<close> and \<open>b\<close> as multisets. \<open>slice xs lo hi\<close> is \<open>xs[lo:hi]\<close>, and
  \<open>common a b w\<close> the size of that intersection inside the window \<open>w\<close>.
\<close>

definition slice :: "'a list \<Rightarrow> nat \<Rightarrow> nat \<Rightarrow> 'a list" where
  "slice xs lo hi = take (hi - lo) (drop lo xs)"

definition common :: "'a list \<Rightarrow> 'a list \<Rightarrow> window \<Rightarrow> nat" where
  "common a b w =
     (case w of (alo, ahi, blo, bhi) \<Rightarrow> size (mset (slice a alo ahi) \<inter># mset (slice b blo bhi)))"

definition window_ok :: "'a list \<Rightarrow> 'a list \<Rightarrow> window \<Rightarrow> bool" where
  "window_ok a b w =
     (case w of (alo, ahi, blo, bhi) \<Rightarrow> alo \<le> ahi \<and> ahi \<le> length a \<and> blo \<le> bhi \<and> bhi \<le> length b)"

lemma slice_split:
  assumes "lo \<le> mid" "mid \<le> hi"
  shows "slice xs lo hi = slice xs lo mid @ slice xs mid hi"
proof -
  have "hi - lo = (mid - lo) + (hi - mid)" using assms by simp
  then have "take (hi - lo) (drop lo xs) =
      take (mid - lo) (drop lo xs) @ take (hi - mid) (drop (mid - lo) (drop lo xs))"
    by (simp only: take_add)
  then show ?thesis using assms by (simp add: slice_def)
qed

lemma slice_eq_nth:
  assumes "i + k \<le> length a" "j + k \<le> length b" "\<And>t. t < k \<Longrightarrow> a ! (i + t) = b ! (j + t)"
  shows "slice a i (i + k) = slice b j (j + k)"
  using assms by (intro nth_equalityI) (simp_all add: slice_def)

lemma length_slice: "hi \<le> length xs \<Longrightarrow> length (slice xs lo hi) = hi - lo"
  by (simp add: slice_def)

lemma inter_mset_3:
  "size (A1 \<inter># B1) + size M + size (A2 \<inter># B2) \<le> size ((A1 + M + A2) \<inter># (B1 + M + B2))"
proof -
  have "(A1 \<inter># B1) + M + (A2 \<inter># B2) \<subseteq># (A1 + M + A2) \<inter># (B1 + M + B2)"
    by (intro subset_mset.inf_greatest subset_mset.add_mono) simp_all
  from size_mset_mono[OF this] show ?thesis by simp
qed

lemma common_split:
  assumes ok: "window_ok a b (alo, ahi, blo, bhi)"
    and f: "find_longest_match a b alo ahi blo bhi = (i, j, k)" and k: "k \<noteq> 0"
  shows "common a b (alo, i, blo, j) + k + common a b (i + k, ahi, j + k, bhi)
           \<le> common a b (alo, ahi, blo, bhi)"
    and "window_ok a b (alo, i, blo, j)" and "window_ok a b (i + k, ahi, j + k, bhi)"
proof -
  note bnd = find_longest_match_bounds[OF f]
  have b: "alo \<le> i" "i + k \<le> ahi" "blo \<le> j" "j + k \<le> bhi"
    using bnd(1,2) bnd(3,4)[OF k] by auto
  have la: "ahi \<le> length a" and lb: "bhi \<le> length b"
    using ok by (auto simp: window_ok_def)
  have blk: "slice a i (i + k) = slice b j (j + k)"
    using b la lb bnd(5) by (intro slice_eq_nth) auto
  have sa: "slice a alo ahi = slice a alo i @ slice a i (i + k) @ slice a (i + k) ahi"
    using b slice_split[of alo i ahi a] slice_split[of i "i + k" ahi a] by simp
  have sb: "slice b blo bhi = slice b blo j @ slice b j (j + k) @ slice b (j + k) bhi"
    using b slice_split[of blo j bhi b] slice_split[of j "j + k" bhi b] by simp
  have sz: "size (mset (slice b j (j + k))) = k"
    using b lb by (simp add: length_slice)
  show "common a b (alo, i, blo, j) + k + common a b (i + k, ahi, j + k, bhi)
           \<le> common a b (alo, ahi, blo, bhi)"
    using inter_mset_3[of "mset (slice a alo i)" "mset (slice b blo j)" "mset (slice b j (j + k))"
        "mset (slice a (i + k) ahi)" "mset (slice b (j + k) bhi)"]
    unfolding common_def prod.case sa sb blk mset_append sz by (simp add: ac_simps)
  show "window_ok a b (alo, i, blo, j)" "window_ok a b (i + k, ahi, j + k, bhi)"
    using b la lb by (auto simp: window_ok_def)
qed

abbreviation block_size :: "nat \<times> nat \<times> nat \<Rightarrow> nat" where
  "block_size \<equiv> (\<lambda>(i, j, k). k)"

lemma gmb_loop_sum:
  "list_all (window_ok a b) queue \<Longrightarrow>
   sum_list (map block_size (gmb_loop a b queue blocks))
     \<le> sum_list (map block_size blocks) + sum_list (map (common a b) queue)"
proof (induction a b queue blocks rule: gmb_loop.induct)
  case (1 a b blocks)
  then show ?case by simp
next
  case (2 a b alo ahi blo bhi queue blocks)
  obtain i j k where f: "find_longest_match a b alo ahi blo bhi = (i, j, k)"
    by (cases "find_longest_match a b alo ahi blo bhi") auto
  from 2(3) have ok: "window_ok a b (alo, ahi, blo, bhi)" and okq: "list_all (window_ok a b) queue"
    by simp_all
  show ?case
  proof (cases "k = 0")
    case True
    with 2(2)[OF f[symmetric] refl] okq f show ?thesis by simp
  next
    case False
    define queue1 where "queue1 = (if alo < i \<and> blo < j then (alo, i, blo, j) # queue else queue)"
    define queue2 where "queue2 = (if i + k < ahi \<and> j + k < bhi then (i + k, ahi, j + k, bhi) # queue1 else queue1)"
    note cs = common_split[OF ok f False]
    have ok2: "list_all (window_ok a b) queue2"
      using okq cs(2,3) by (simp add: queue1_def queue2_def)
    have "sum_list (map (common a b) queue2)
        \<le> common a b (alo, i, blo, j) + common a b (i + k, ahi, j + k, bhi)
            + sum_list (map (common a b) queue)"
      by (simp add: queue1_def queue2_def)
    with cs(1) have le: "k + sum_list (map (common a b) queue2)
        \<le> common a b (alo, ahi, blo, bhi) + sum_list (map (common a b) queue)"
      by simp
    have "sum_list (map block_size (gmb_loop a b queue2 (blocks @ [(i, j, k)])))
        \<le> sum_list (map block_size (blocks @ [(i, j, k)])) + sum_list (map (common a b) queue2)"
      using 2(1)[OF f[symmetric] refl False queue1_def queue2_def ok2] .
    moreover have "gmb_loop a b ((alo, ahi, blo, bhi) # queue) blocks
        = gmb_loop a b queue2 (blocks @ [(i, j, k)])"
      using f False by (simp add: queue1_def queue2_def Let_def)
    ultimately show ?thesis using le by simp
  qed
qed

lemma collapse_sum:
  "sum_list (map block_size (collapse rest b1 acc))
     = sum_list (map block_size acc) + block_size b1 + sum_list (map block_size rest)"
  by (induction rest b1 acc rule: collapse.induct) auto

lemma sum_list_sort: "sum_list (map f (sort xs)) = sum_list (map (f :: 'b::linorder \<Rightarrow> nat) xs)"
proof -
  have "sum_mset (image_mset f (mset (sort xs))) = sum_mset (image_mset f (mset xs))"
    by simp
  then show ?thesis by (simp only: mset_map[symmetric] sum_mset_sum_list)
qed

lemma matches_le_common:
  "sum_list (map block_size (get_matching_blocks a b)) \<le> size (mset a \<inter># mset b)"
proof -
  have "sum_list (map block_size (gmb_loop a b [(0, length a, 0, length b)] []))
      \<le> common a b (0, length a, 0, length b)"
    using gmb_loop_sum[of a b "[(0, length a, 0, length b)]" "[]"]
    by (simp add: window_ok_def)
  then show ?thesis
    by (simp add: get_matching_blocks_def Let_def collapse_sum sum_list_sort common_def slice_def)
qed

lemma fullbcount_fold:
  "fold (\<lambda>elt fbc. fbc(elt := fbc elt + 1)) b f e = f e + count (mset b) e"
  by (induction b arbitrary: f) auto

lemma fullbcount_count: "fullbcount b e = count (mset b) e"
  unfolding fullbcount_def fullbcount_fold by simp

lemma quick_loop_eq:
  "(\<And>e. count M e = nat (case avail e of Some n \<Rightarrow> n | None \<Rightarrow> int (fbc e))) \<Longrightarrow>
   quick_loop fbc rest avail m = m + size (mset rest \<inter># M)"
proof (induction rest arbitrary: avail m M)
  case Nil
  then show ?case by simp
next
  case (Cons x r)
  define numb where "numb = (case avail x of Some n \<Rightarrow> n | None \<Rightarrow> int (fbc x))"
  define avail' where "avail' = avail(x \<mapsto> numb - 1)"
  define m' where "m' = (if numb > 0 then m + 1 else m)"
  have step: "quick_loop fbc (x # r) avail m = quick_loop fbc r avail' m'"
    by (simp add: numb_def avail'_def m'_def Let_def)
  from Cons.prems[of x] have cx: "count M x = nat numb"
    by (simp add: numb_def)
  show ?case
  proof (cases "numb > 0")
    case True
    with cx have xin: "x \<in># M" by (simp add: count_greater_zero_iff[symmetric] del: count_greater_zero_iff)
    have inv: "count (M - {#x#}) e = nat (case avail' e of Some n \<Rightarrow> n | None \<Rightarrow> int (fbc e))" for e
      using Cons.prems[of e] cx True by (auto simp: avail'_def)
    have "mset (x # r) \<inter># M = add_mset x (mset r \<inter># (M - {#x#}))"
      using xin by (simp add: inter_add_left2)
    then have "m + size (mset (x # r) \<inter># M) = m' + size (mset r \<inter># (M - {#x#}))"
      using True by (simp add: m'_def)
    with Cons.IH[of "M - {#x#}" avail' m', OF inv] step show ?thesis by simp
  next
    case False
    with cx have xout: "x \<notin># M" by (simp add: not_in_iff)
    have inv: "count M e = nat (case avail' e of Some n \<Rightarrow> n | None \<Rightarrow> int (fbc e))" for e
      using Cons.prems[of e] cx False by (auto simp: avail'_def)
    have "mset (x # r) \<inter># M = mset r \<inter># M"
      using xout by (simp add: inter_add_left1)
    moreover have "m' = m" using False by (simp add: m'_def)
    ultimately show ?thesis
      using Cons.IH[of M avail' m', OF inv] step by simp
  qed
qed

lemma quick_loop_common:
  "quick_loop (fullbcount b) a Map.empty 0 = size (mset a \<inter># mset b)"
  using quick_loop_eq[where M = "mset b" and avail = Map.empty and fbc = "fullbcount b"
      and m = 0 and rest = a]
  by (simp add: fullbcount_count)

lemma common_le_quick: "size (mset a \<inter># mset b) \<le> quick_loop (fullbcount b) a Map.empty 0"
  by (simp add: quick_loop_common)

lemma common_le_min: "size (mset a \<inter># mset b) \<le> min (length a) (length b)"
proof -
  have "size (mset a \<inter># mset b) \<le> size (mset a)" "size (mset a \<inter># mset b) \<le> size (mset b)"
    by (intro size_mset_mono; simp)+
  then show ?thesis by simp
qed

lemma calculate_ratio_mono: "m \<le> m' \<Longrightarrow> calculate_ratio m l \<le> calculate_ratio m' l"
  by (simp add: calculate_ratio_def divide_right_mono)

lemma ratio_le_quick_ratio: "ratio a b \<le> quick_ratio a b"
  unfolding ratio_def quick_ratio_def Let_def
  by (intro calculate_ratio_mono order_trans[OF matches_le_common common_le_quick])

lemma ratio_le_real_quick_ratio: "ratio a b \<le> real_quick_ratio a b"
  unfolding ratio_def real_quick_ratio_def Let_def
  by (intro calculate_ratio_mono order_trans[OF matches_le_common common_le_min])

lemma gcm_loop_filter:
  "gcm_loop word cutoff possibilities result =
     result @ map (\<lambda>x. (ratio x word, x)) (filter (\<lambda>x. ratio x word \<ge> cutoff) possibilities)"
proof (induction possibilities arbitrary: result)
  case Nil
  then show ?case by simp
next
  case (Cons x xs)
  have "ratio x word \<ge> cutoff \<Longrightarrow> real_quick_ratio x word \<ge> cutoff \<and> quick_ratio x word \<ge> cutoff"
    using ratio_le_quick_ratio[of x word] ratio_le_real_quick_ratio[of x word] by simp
  then show ?case by (auto simp: Cons.IH)
qed

lemma py_max_Max: "py_max m xs = Max (set (m # xs))"
proof (induction xs arbitrary: m)
  case Nil
  then show ?case by simp
next
  case (Cons x xs)
  have "(if x > m then x else m) = max m x" by (auto simp: max_def)
  then have "py_max m (x # xs) = Max (insert (max m x) (set xs))"
    using Cons.IH[of "max m x"] by simp
  also have "\<dots> = Max (set (m # x # xs))"
    by (cases "xs = []") (simp_all add: max.assoc)
  finally show ?case .
qed

lemma nlargest1_Max: "nlargest1 xs = (if xs = [] then [] else [Max (set xs)])"
  by (cases xs) (simp_all add: nlargest1_def py_max_Max)

text \<open>
  So the three tests of \<open>get_close_matches\<close> select the possibilities whose ratio reaches
  the cutoff, and the result is the greatest \<open>(score, x)\<close> among them.
\<close>

definition close_keys :: "'a::linorder list \<Rightarrow> 'a list list \<Rightarrow> real \<Rightarrow> 'a list set" where
  "close_keys word possibilities cutoff = {x \<in> set possibilities. ratio x word \<ge> cutoff}"

lemma get_close_matches_Max:
  "get_close_matches word possibilities cutoff =
     (if close_keys word possibilities cutoff = {} then []
      else [snd (Max ((\<lambda>x. (ratio x word, x)) ` close_keys word possibilities cutoff))])"
proof -
  define F where "F = filter (\<lambda>x. ratio x word \<ge> cutoff) possibilities"
  have F: "set F = close_keys word possibilities cutoff"
    by (auto simp: close_keys_def F_def)
  have "get_close_matches word possibilities cutoff =
      map snd (nlargest1 (map (\<lambda>x. (ratio x word, x)) F))"
    by (simp add: get_close_matches_def gcm_loop_filter F_def)
  also have "\<dots> = (if F = [] then [] else [snd (Max ((\<lambda>x. (ratio x word, x)) ` set F))])"
    by (simp add: nlargest1_Max)
  also have "\<dots> = (if close_keys word possibilities cutoff = {} then []
      else [snd (Max ((\<lambda>x. (ratio x word, x)) ` close_keys word possibilities cutoff))])"
    using F by (auto simp flip: F)
  finally show ?thesis .
qed

section \<open>The phrase table builder\<close>

text \<open>
  \<open>pairs conv\<close> reads a list as alternating prompts and responses; a last element
  without a partner is dropped. The index loop of the source stores exactly these pairs,
  in order, and raises nothing on any list.
\<close>

lemma str_simps: "str [] = []" "str (c # cs) = of_char c # str cs"
  by (simp_all add: str_def)

fun pairs :: "'a list \<Rightarrow> ('a \<times> 'a) list" where
  "pairs (p # v # rest) = (p, v) # pairs rest"
| "pairs [p] = []"
| "pairs [] = []"

lemma filter_even_upt_step:
  "2 * n < m \<Longrightarrow> filter even [2 * n..<m] = 2 * n # filter even [2 * (Suc n)..<m]"
  by (cases "Suc (2 * n) < m") (simp_all add: upt_conv_Cons)

lemma build_loop_pairs:
  "conv = pre @ rest \<Longrightarrow> length pre = 2 * n \<Longrightarrow>
   build_loop U conv (filter even [2 * n..<length conv - 1]) m =
     Inr (fold (\<lambda>(p, v). AList.update (lower U (strip p)) v) (pairs rest) m)"
proof (induction rest arbitrary: pre n m rule: pairs.induct)
  case (1 p v rest)
  have "2 * n < length conv - 1"
    using 1(2,3) by simp
  then have idx: "filter even [2 * n..<length conv - 1] =
      2 * n # filter even [2 * (Suc n)..<length conv - 1]"
    by (rule filter_even_upt_step)
  have g0: "list_getitem conv (2 * n) = Inr p"
    using 1(2,3) by (simp add: list_getitem_def nth_append)
  have g1: "list_getitem conv (2 * n + 1) = Inr v"
    using 1(2,3) by (simp add: list_getitem_def nth_append)
  have "conv = (pre @ [p, v]) @ rest" "length (pre @ [p, v]) = 2 * Suc n"
    using 1(2,3) by simp_all
  from 1(1)[OF this, of "AList.update (lower U (strip p)) v m"]
  show ?case
    unfolding idx build_loop.simps g0 g1 by simp
next
  case (2 p)
  then show ?case by simp
next
  case 3
  then show ?case by simp
qed

lemma build_mapping_pairs:
  "build_mapping U conv =
     Inr (fold (\<lambda>(p, v). AList.update (lower U (strip p)) v) (pairs conv) [])"
  using build_loop_pairs[of conv "[]" conv 0 U "[]"]
  by (simp add: build_mapping_def range_step2_def nat_diff_distrib')

lemma pairs_butlast: "odd (length conv) \<Longrightarrow> pairs (butlast conv) = pairs conv"
  by (induction conv rule: pairs.induct) auto

lemma length_pairs: "length (pairs xs) = length xs div 2"
  by (induction xs rule: pairs.induct) auto

lemma pairs_nth: "i < length xs div 2 \<Longrightarrow> pairs xs ! i = (xs ! (2 * i), xs ! (2 * i + 1))"
proof (induction xs arbitrary: i rule: pairs.induct)
  case (1 p v rest)
  then show ?case by (cases i) auto
qed auto

lemma pairs_by_index:
  "pairs xs = map (\<lambda>i. (xs ! (2 * i), xs ! (2 * i + 1))) [0..<length xs div 2]"
  by (rule nth_equalityI) (simp_all add: length_pairs pairs_nth)

text \<open>
  C2 (amended). On a list with an odd number of elements the builder raises nothing.
  It returns the table built from the leading complete pairs: the dictionary obtained by
  assigning, for \<open>i = 0, 1, ...\<close> below half the length, the response \<open>conv[2*i+1]\<close> to
  the normalized prompt \<open>conv[2*i]\<close>, in this order. The last element, which has no
  partner, is ignored: the list without it gives the same table. The bound
  \<open>len(CONVERSATION)-1\<close> of the loop keeps \<open>i+1\<close> in range and leaves the unpaired last
  prompt out.
\<close>

theorem build_mapping_odd_ignores_last:
  assumes "odd (length conv)"
  shows "build_mapping U conv =
           Inr (fold (\<lambda>(p, v). AList.update (lower U (strip p)) v)
                  (map (\<lambda>i. (conv ! (2 * i), conv ! (2 * i + 1))) [0..<length conv div 2]) []) \<and>
         build_mapping U (butlast conv) = build_mapping U conv"
proof -
  have "build_mapping U conv =
      Inr (fold (\<lambda>(p, v). AList.update (lower U (strip p)) v) (pairs conv) [])"
    by (rule build_mapping_pairs)
  moreover have "build_mapping U (butlast conv) = build_mapping U conv"
    using assms by (simp add: build_mapping_pairs pairs_butlast)
  ultimately show ?thesis
    by (simp only: pairs_by_index[of conv] simp_thms)
qed

text \<open>
  C2 as stated fails: the list \<open>["Hello", "Hi there!", "Goodbye"]\<close> has three elements and
  the builder returns the table with the single entry \<open>hello\<close>, not an error.
\<close>

theorem build_mapping_odd_counterexample:
  "odd (length [str ''Hello'', str ''Hi there!'', str ''Goodbye'']) \<and>
   build_mapping (\<lambda>s. s) [str ''Hello'', str ''Hi there!'', str ''Goodbye''] =
     Inr [(str ''hello'', str ''Hi there!'')]"
  by (simp add: build_mapping_pairs str_simps strip_def lower_def isascii_def isspace_def ascii_lower_def)

text \<open>
  The amended C2 at that list: the table is the one entry of the complete pair, and the
  list without \<open>"Goodbye"\<close> gives the same table.
\<close>

theorem build_mapping_odd_ignores_last_witness:
  "odd (length [str ''Hello'', str ''Hi there!'', str ''Goodbye'']) \<and>
   build_mapping (\<lambda>s. s) [str ''Hello'', str ''Hi there!'', str ''Goodbye''] =
     Inr (fold (\<lambda>(p, v). AList.update (lower (\<lambda>s. s) (strip p)) v)
            [(str ''Hello'', str ''Hi there!'')] []) \<and>
   build_mapping (\<lambda>s. s) (butlast [str ''Hello'', str ''Hi there!'', str ''Goodbye'']) =
     build_mapping (\<lambda>s. s) [str ''Hello'', str ''Hi there!'', str ''Goodbye'']"
proof -
  have o: "odd (length [str ''Hello'', str ''Hi there!'', str ''Goodbye''])" by simp
  have m: "map (\<lambda>i. ([str ''Hello'', str ''Hi there!'', str ''Goodbye''] ! (2 * i),
                    [str ''Hello'', str ''Hi there!'', str ''Goodbye''] ! (2 * i + 1)))
             [0..<length [str ''Hello'', str ''Hi there!'', str ''Goodbye''] div 2] =
           [(str ''Hello'', str ''Hi there!'')]"
    by (simp add: upt_rec)
  from build_mapping_odd_ignores_last[OF o, of "\<lambda>s. s"] o show ?thesis
    unfolding m by blast
qed

section \<open>The sentiment thresholds\<close>

text \<open>
  C4. Whenever the scorer reports a compound score \<open>c\<close> for the text, both
  \<open>analyze_sentiment\<close> (app.py) and \<open>get_sentiment_label\<close> (main.py) label the text
  \<open>Positive\<close> when \<open>c \<ge> 0.5\<close>, \<open>Negative\<close> when \<open>c \<le> -0.5\<close> and \<open>Neutral\<close> otherwise, so
  the boundary scores \<open>0.5\<close> and \<open>-0.5\<close> get the extreme label, and the score each
  returns is \<open>c\<close>.
\<close>

theorem classify_thresholds:
  assumes "map_of (polarity_scores text) (str ''compound'') = Some c"
  shows "label (analyze_sentiment polarity_scores text) =
           (if c \<ge> 0.5 then str ''Positive'' else if c \<le> - 0.5 then str ''Negative''
            else str ''Neutral'') \<and>
         score (analyze_sentiment polarity_scores text) = c \<and>
         get_sentiment_label polarity_scores text =
           Inr (if c \<ge> 0.5 then str ''Positive'' else if c \<le> - 0.5 then str ''Negative''
                else str ''Neutral'', c)"
  using assms
  by (simp add: analyze_sentiment_def get_sentiment_label_def dict_get_def dict_getitem_def Let_def)

text \<open>C4 at the two boundary scores and at a score just inside the neutral band.\<close>

theorem classify_thresholds_witness:
  "label (analyze_sentiment (\<lambda>t. [(str ''compound'', 0.5)]) (str ''fine'')) = str ''Positive'' \<and>
   score (analyze_sentiment (\<lambda>t. [(str ''compound'', 0.5)]) (str ''fine'')) = 0.5 \<and>
   get_sentiment_label (\<lambda>t. [(str ''compound'', 0.5)]) (str ''fine'') = Inr (str ''Positive'', 0.5) \<and>
   label (analyze_sentiment (\<lambda>t. [(str ''compound'', - 0.5)]) (str ''bad'')) = str ''Negative'' \<and>
   get_sentiment_label (\<lambda>t. [(str ''compound'', - 0.5)]) (str ''bad'') = Inr (str ''Negative'', - 0.5) \<and>
   label (analyze_sentiment (\<lambda>t. [(str ''compound'', 0.4999)]) (str ''so so'')) = str ''Neutral''"
  using classify_thresholds[of "\<lambda>t. [(str ''compound'', 0.5)]" "str ''fine''" "0.5"]
    classify_thresholds[of "\<lambda>t. [(str ''compound'', - 0.5)]" "str ''bad''" "- 0.5"]
    classify_thresholds[of "\<lambda>t. [(str ''compound'', 0.4999)]" "str ''so so''" "0.4999"]
  by simp

section \<open>The responder on any table\<close>

lemma finite_close_keys: "finite (close_keys w ps c)"
  by (simp add: close_keys_def)

lemma get_close_matches_cases:
  obtains (none) "close_keys w ps c = {}" "get_close_matches w ps c = []"
  | (best) k where "get_close_matches w ps c = [k]" "k \<in> close_keys w ps c"
      "\<And>k'. k' \<in> close_keys w ps c \<Longrightarrow> (ratio k' w, k') \<le> (ratio k w, k)"
proof (cases "close_keys w ps c = {}")
  case True
  then show ?thesis using none by (simp add: get_close_matches_Max)
next
  case False
  define S where "S = (\<lambda>x. (ratio x w, x)) ` close_keys w ps c"
  have fin: "finite S" and ne: "S \<noteq> {}"
    using False by (simp_all add: S_def finite_close_keys)
  from Max_in[OF fin ne] obtain k where k: "k \<in> close_keys w ps c" "Max S = (ratio k w, k)"
    by (auto simp: S_def)
  have "(ratio k' w, k') \<le> (ratio k w, k)" if "k' \<in> close_keys w ps c" for k'
    using Max_ge[OF fin, of "(ratio k' w, k')"] that k(2) by (simp add: S_def)
  moreover have "get_close_matches w ps c = [k]"
    using False k(2) by (simp add: get_close_matches_Max S_def)
  ultimately show ?thesis using best k(1) by blast
qed

lemma get_close_matches_set_cong:
  "set ps1 = set ps2 \<Longrightarrow> get_close_matches w ps1 c = get_close_matches w ps2 c"
  by (simp add: get_close_matches_Max close_keys_def)

lemma dict_getitem_key:
  "k \<in> set (dict_keys mapping) \<Longrightarrow> \<exists>v. map_of mapping k = Some v \<and> dict_getitem mapping k = Inr v"
  by (cases "map_of mapping k") (auto simp: dict_keys_def dict_getitem_def map_of_eq_None_iff)

lemma get_close_matches_Nil_iff:
  "get_close_matches w ps c = [] \<longleftrightarrow> (\<forall>k\<in>set ps. ratio k w < c)"
  by (auto simp: get_close_matches_Max close_keys_def not_le)

lemma respond_no_close:
  assumes "lower U (strip input) \<notin> set (dict_keys mapping)"
    and "\<forall>k\<in>set (dict_keys mapping). ratio k (lower U (strip input)) < 6 / 10"
  shows "respond U mapping input = Inr (keyword_rules mapping (lower U (strip input)))"
proof -
  have "get_close_matches (lower U (strip input)) (dict_keys mapping) (6 / 10) = []"
    using assms(2) by (simp only: get_close_matches_Nil_iff)
  with assms(1) show ?thesis
    by (simp add: respond_def Let_def)
qed

text \<open>
  C3. Let the normalized input be no key of the table. If some key has a similarity
  ratio of at least \<open>0.6\<close> to it, \<open>respond\<close> returns the response stored under a key
  \<open>k\<close> whose ratio is at least \<open>0.6\<close> and is the greatest among all keys; among keys
  that tie at that ratio, \<open>k\<close> is the greatest in the order of strings. If every key has a
  ratio below \<open>0.6\<close>, the fuzzy step finds nothing and the reply comes from the keyword
  rules. The ratio is \<open>SequenceMatcher.ratio\<close> with the key as first and the normalized
  input as second sequence.
\<close>

theorem respond_fuzzy_match:
  assumes nokey: "lower U (strip input) \<notin> set (dict_keys mapping)"
  shows "if \<exists>k\<in>set (dict_keys mapping). ratio k (lower U (strip input)) \<ge> 6 / 10
         then \<exists>k v. map_of mapping k = Some v \<and> respond U mapping input = Inr v \<and>
                ratio k (lower U (strip input)) \<ge> 6 / 10 \<and>
                (\<forall>k'\<in>set (dict_keys mapping).
                   ratio k' (lower U (strip input)) \<le> ratio k (lower U (strip input)) \<and>
                   (ratio k' (lower U (strip input)) = ratio k (lower U (strip input)) \<longrightarrow> k' \<le> k))
         else get_close_matches (lower U (strip input)) (dict_keys mapping) (6 / 10) = [] \<and>
              respond U mapping input = Inr (keyword_rules mapping (lower U (strip input)))"
proof -
  define key where "key = lower U (strip input)"
  define keys where "keys = dict_keys mapping"
  have r: "respond U mapping input =
      (case get_close_matches key keys (6 / 10) of
         c # _ \<Rightarrow> dict_getitem mapping c | [] \<Rightarrow> Inr (keyword_rules mapping key))"
    using nokey unfolding key_def keys_def by (simp add: respond_def Let_def)
  show ?thesis
    unfolding key_def[symmetric] keys_def[symmetric]
  proof (cases rule: get_close_matches_cases[of key keys "6 / 10"])
    case none
    then have "\<not> (\<exists>k\<in>set keys. ratio k key \<ge> 6 / 10)"
      by (auto simp: close_keys_def)
    with none r show "if \<exists>k\<in>set keys. ratio k key \<ge> 6 / 10
         then \<exists>k v. map_of mapping k = Some v \<and> respond U mapping input = Inr v \<and>
                ratio k key \<ge> 6 / 10 \<and>
                (\<forall>k'\<in>set keys. ratio k' key \<le> ratio k key \<and> (ratio k' key = ratio k key \<longrightarrow> k' \<le> k))
         else get_close_matches key keys (6 / 10) = [] \<and>
              respond U mapping input = Inr (keyword_rules mapping key)"
      by simp
  next
    case (best k)
    from best(2) have kin: "k \<in> set keys" and kr: "ratio k key \<ge> 6 / 10"
      by (auto simp: close_keys_def)
    from dict_getitem_key[of k mapping] kin obtain v
      where v: "map_of mapping k = Some v" "dict_getitem mapping k = Inr v"
      by (auto simp: keys_def)
    have top: "ratio k' key \<le> ratio k key \<and> (ratio k' key = ratio k key \<longrightarrow> k' \<le> k)"
      if "k' \<in> set keys" for k'
    proof (cases "ratio k' key \<ge> 6 / 10")
      case True
      with that have "k' \<in> close_keys key keys (6 / 10)" by (simp add: close_keys_def)
      from best(3)[OF this] show ?thesis by (auto simp: less_eq_prod_def)
    next
      case False
      with kr show ?thesis by auto
    qed
    have "respond U mapping input = Inr v"
      using r best(1) v(2) by simp
    with v(1) kr top kin show "if \<exists>k\<in>set keys. ratio k key \<ge> 6 / 10
         then \<exists>k v. map_of mapping k = Some v \<and> respond U mapping input = Inr v \<and>
                ratio k key \<ge> 6 / 10 \<and>
                (\<forall>k'\<in>set keys. ratio k' key \<le> ratio k key \<and> (ratio k' key = ratio k key \<longrightarrow> k' \<le> k))
         else get_close_matches key keys (6 / 10) = [] \<and>
              respond U mapping input = Inr (keyword_rules mapping key)"
      by auto
  qed
qed

text \<open>
  The keyword rules test the normalized input. A word of lower-case letters that occurs in
  an ASCII input as written still occurs in its normalized form: \<open>strip\<close> removes white
  space at the ends only and \<open>lower\<close> leaves lower-case letters alone.
\<close>

lemma take_length_eq_iff: "take (length w) s = w \<longleftrightarrow> (\<exists>q. s = w @ q)"
proof
  assume "take (length w) s = w"
  then have "s = w @ drop (length w) s"
    by (metis append_take_drop_id)
  then show "\<exists>q. s = w @ q" ..
next
  assume "\<exists>q. s = w @ q"
  then show "take (length w) s = w" by auto
qed

lemma contains_iff: "contains w s \<longleftrightarrow> (\<exists>p q. s = p @ w @ q)"
proof (induction s)
  case Nil
  then show ?case by auto
next
  case (Cons c cs)
  show ?case
  proof
    assume "contains w (c # cs)"
    then consider "take (length w) (c # cs) = w" | "contains w cs" by auto
    then show "\<exists>p q. c # cs = p @ w @ q"
    proof cases
      case 1
      then obtain q where "c # cs = w @ q" unfolding take_length_eq_iff ..
      then have "c # cs = [] @ w @ q" by simp
      then show ?thesis by blast
    next
      case 2
      with Cons.IH obtain p q where "cs = p @ w @ q" by auto
      then have "c # cs = (c # p) @ w @ q" by simp
      then show ?thesis by blast
    qed
  next
    assume "\<exists>p q. c # cs = p @ w @ q"
    then obtain p q where pq: "c # cs = p @ w @ q" by auto
    show "contains w (c # cs)"
    proof (cases p)
      case Nil
      with pq have "take (length w) (c # cs) = w"
        unfolding take_length_eq_iff by auto
      then show ?thesis by simp
    next
      case (Cons c' p')
      with pq have "cs = p' @ w @ q" by simp
      with Cons.IH show ?thesis by auto
    qed
  qed
qed

lemma dropWhile_keeps:
  assumes "\<not> P a"
  shows "\<exists>p'. dropWhile P (p @ a # rest) = p' @ a # rest"
proof (cases "\<forall>x\<in>set p. P x")
  case True
  then have "dropWhile P (p @ a # rest) = [] @ a # rest"
    using assms by (simp add: dropWhile_append)
  then show ?thesis by blast
next
  case False
  then have "dropWhile P (p @ a # rest) = dropWhile P p @ a # rest"
    by (auto simp: dropWhile_append)
  then show ?thesis by blast
qed

lemma strip_keeps:
  assumes "w \<noteq> []" "\<forall>c\<in>set w. \<not> isspace c"
  shows "\<exists>p' q'. strip (p @ w @ q) = p' @ w @ q'"
proof -
  obtain a w' where w: "w = a # w'" using assms(1) by (cases w) auto
  obtain z w'' where wr: "rev w = z # w''" using assms(1) by (cases "rev w") auto
  have za: "\<not> isspace a" "\<not> isspace z"
    using assms(2) w wr by (auto, metis list.set_intros(1) set_rev)
  from dropWhile_keeps[where P = isspace and a = a and p = p and rest = "w' @ q"] za(1) obtain p'
    where 1: "dropWhile isspace (p @ w @ q) = p' @ w @ q" by (auto simp: w)
  have "rev (p' @ w @ q) = rev q @ z # (w'' @ rev p')" by (simp add: wr)
  with dropWhile_keeps[where P = isspace and a = z and p = "rev q" and rest = "w'' @ rev p'"] za(2)
  obtain q''
    where "dropWhile isspace (rev (p' @ w @ q)) = q'' @ z # (w'' @ rev p')" by auto
  then have "rev (dropWhile isspace (rev (p' @ w @ q))) = p' @ rev (z # w'') @ rev q''"
    by simp
  then have "strip (p @ w @ q) = p' @ w @ rev q''"
    unfolding strip_def 1 wr[symmetric] by simp
  then show ?thesis by blast
qed

lemma set_strip: "set (strip s) \<subseteq> set s"
proof
  fix x assume "x \<in> set (strip s)"
  then have "x \<in> set (dropWhile isspace (rev (dropWhile isspace s)))"
    by (simp add: strip_def)
  then have "x \<in> set (rev (dropWhile isspace s))" by (rule set_dropWhileD)
  then have "x \<in> set (dropWhile isspace s)" by simp
  then show "x \<in> set s" by (rule set_dropWhileD)
qed

lemma contains_normalize:
  assumes "isascii input" "contains w input"
    and "w \<noteq> []" "\<forall>c\<in>set w. \<not> isspace c \<and> ascii_lower c = c"
  shows "contains w (lower U (strip input))"
proof -
  from assms(2) obtain p q where "input = p @ w @ q"
    unfolding contains_iff by auto
  with strip_keeps[of w p q] assms(3,4) obtain p' q' where s: "strip input = p' @ w @ q'"
    by auto
  have "isascii (strip input)"
    using assms(1) set_strip[of input] by (auto simp: isascii_def list_all_iff)
  then have "lower U (strip input) = map ascii_lower p' @ map ascii_lower w @ map ascii_lower q'"
    by (simp add: lower_def s)
  moreover have "map ascii_lower w = w"
    using assms(4) by (simp add: map_idI)
  ultimately show ?thesis
    unfolding contains_iff by auto
qed

lemma greeting_words_plain:
  "word \<in> set [str ''hi'', str ''hello'', str ''hey''] \<Longrightarrow>
     word \<noteq> [] \<and> (\<forall>c\<in>set word. \<not> isspace c \<and> ascii_lower c = c)"
  by (auto simp: str_simps isspace_def ascii_lower_def)

text \<open>
  C5. When the normalized input is no key, no key reaches the ratio \<open>0.6\<close>, and the
  input contains \<open>hi\<close>, \<open>hello\<close> or \<open>hey\<close> (in its normalized form, which is what the
  source tests by \<open>word in key\<close>, or as written in an ASCII input), the reply is the
  table's entry for \<open>hello\<close> when there is one and the literal \<open>Hello!\<close> otherwise,
  whatever else the input contains: the rule stands before the rules for thanks and for
  returns.
\<close>

theorem respond_greeting_rule:
  assumes "lower U (strip input) \<notin> set (dict_keys mapping)"
    and "\<forall>k\<in>set (dict_keys mapping). ratio k (lower U (strip input)) < 6 / 10"
    and "\<exists>word\<in>set [str ''hi'', str ''hello'', str ''hey''].
           contains word (lower U (strip input)) \<or> (isascii input \<and> contains word input)"
  shows "respond U mapping input =
           Inr (case map_of mapping (str ''hello'') of Some v \<Rightarrow> v | None \<Rightarrow> str ''Hello!'')"
proof -
  from assms(3) obtain word where w: "word \<in> set [str ''hi'', str ''hello'', str ''hey'']"
    and d: "contains word (lower U (strip input)) \<or> (isascii input \<and> contains word input)"
    by blast
  from d have "contains word (lower U (strip input))"
    using contains_normalize[of input word U] greeting_words_plain[OF w] by blast
  with w have greet: "list_ex (\<lambda>word. contains word (lower U (strip input)))
      [str ''hi'', str ''hello'', str ''hey'']"
    unfolding list_ex_iff by blast
  have "respond U mapping input = Inr (keyword_rules mapping (lower U (strip input)))"
    using assms(1,2) by (rule respond_no_close)
  also have "keyword_rules mapping (lower U (strip input)) =
      dict_get mapping (str ''hello'') (str ''Hello!'')"
    unfolding keyword_rules_def using greet by (simp only: if_True)
  finally show ?thesis by (simp add: dict_get_def)
qed

lemma respond_cong:
  assumes "distinct (map fst m1)" "distinct (map fst m2)" "set m1 = set m2"
  shows "respond U m1 input = respond U m2 input"
proof -
  have mo: "map_of m1 = map_of m2"
    using assms by (rule map_of_inject_set[THEN iffD2])
  have ks: "set (dict_keys m1) = set (dict_keys m2)"
    using assms(3) by (simp add: dict_keys_def)
  have gi: "dict_getitem m1 = dict_getitem m2" 
    by (rule ext) (simp add: dict_getitem_def mo)
  have kw: "keyword_rules m1 = keyword_rules m2"
    by (rule ext) (simp add: keyword_rules_def dict_get_def mo)
  show ?thesis
    unfolding respond_def Let_def ks gi kw
      get_close_matches_set_cong[OF ks] ..
qed

section \<open>The table of app.py\<close>

text \<open>
  The 35 prompts of \<open>CONVERSATION\<close> are distinct after normalization, so the table that
  \<open>fallback_get_response\<close> builds on every call is \<open>phrase_table U\<close>: one entry per pair of
  the list, in the list's order, with the keys \<open>table_keys\<close>.
\<close>

lemma update_fresh: "k \<notin> fst ` set al \<Longrightarrow> AList.update k v al = al @ [(k, v)]"
  by (induction al) auto

lemma fold_update_fresh:
  "distinct (map fst acc @ map (\<lambda>(p, v). f p) ps) \<Longrightarrow>
   fold (\<lambda>(p, v). AList.update (f p) v) ps acc = acc @ map (\<lambda>(p, v). (f p, v)) ps"
proof (induction ps arbitrary: acc)
  case Nil
  then show ?case by simp
next
  case (Cons x ps)
  obtain p v where x: "x = (p, v)" by (cases x)
  from Cons.prems have fresh: "f p \<notin> fst ` set acc"
    by (auto simp: x)
  from Cons.prems have "distinct (map fst (acc @ [(f p, v)]) @ map (\<lambda>(p, v). f p) ps)"
    by (auto simp: x)
  from Cons.IH[OF this] show ?case
    by (simp add: x update_fresh[OF fresh])
qed

definition table_keys :: "str list" where
  "table_keys = map str [''hello'', ''hi'', ''good morning'', ''good afternoon'',
     ''what are the latest clothing trends?'', ''what are the latest textile trends?'',
     ''what about textile patterns?'', ''what fabrics do you recommend?'',
     ''which fabric is best for summer?'', ''which fabric is best for winter?'',
     ''do you offer custom tailoring?'', ''do you provide size guidance?'',
     ''what sizes do you offer?'', ''can i return an item?'', ''how do i return an item?'',
     ''do you accept exchanges?'', ''what payment methods do you accept?'',
     ''do you offer discounts?'', ''are there any ongoing offers?'',
     ''do you offer wholesale or bulk pricing?'', ''do you offer international shipping?'',
     ''how long does delivery take?'', ''what is your shipping policy?'', ''is cod available?'',
     ''are your fabrics sustainable?'', ''how should i wash cotton fabric?'',
     ''how should i wash linen?'', ''do your fabrics shrink?'', ''can i track my order?'',
     ''do you provide sample swatches?'', ''can you recommend a fabric for formal wear?'',
     ''can you recommend a fabric for kids?'', ''thank you'', ''thanks'', ''goodbye'']"

definition phrase_table :: "(str \<Rightarrow> str) \<Rightarrow> (str, str) dict" where
  "phrase_table U = map (\<lambda>(p, v). (lower U (strip p), v)) (pairs CONVERSATION)"

lemma str_eq_iff: "str a = str b \<longleftrightarrow> a = b"
  by (simp add: str_def inj_map_eq_map[OF inj_of_char])

lemma str_Nil_iff: "str s = [] \<longleftrightarrow> s = []"
  by (simp add: str_def)

lemma distinct_map_str: "distinct (map str xs) = distinct xs"
  by (simp add: distinct_map str_def[abs_def] inj_on_def inj_map_eq_map[OF inj_of_char])

lemma prompts_CONVERSATION:
  "map fst (pairs CONVERSATION) =
    [str ''Hello'',
     str ''Hi'',
     str ''Good morning'',
     str ''Good afternoon'',
     str ''What are the latest clothing trends?'',
     str ''What are the latest textile trends?'',
     str ''What about textile patterns?'',
     str ''What fabrics do you recommend?'',
     str ''Which fabric is best for summer?'',
     str ''Which fabric is best for winter?'',
     str ''Do you offer custom tailoring?'',
     str ''Do you provide size guidance?'',
     str ''What sizes do you offer?'',
     str ''Can I return an item?'',
     str ''How do I return an item?'',
     str ''Do you accept exchanges?'',
     str ''What payment methods do you accept?'',
     str ''Do you offer discounts?'',
     str ''Are there any ongoing offers?'',
     str ''Do you offer wholesale or bulk pricing?'',
     str ''Do you offer international shipping?'',
     str ''How long does delivery take?'',
     str ''What is your shipping policy?'',
     str ''Is COD available?'',
     str ''Are your fabrics sustainable?'',
     str ''How should I wash cotton fabric?'',
     str ''How should I wash linen?'',
     str ''Do your fabrics shrink?'',
     str ''Can I track my order?'',
     str ''Do you provide sample swatches?'',
     str ''Can you recommend a fabric for formal wear?'',
     str ''Can you recommend a fabric for kids?'',
     str ''Thank you'',
     str ''Thanks'',
     str ''Goodbye'']"
  by (simp add: CONVERSATION_def)

lemmas normalize_simps = str_simps strip_def lower_def isascii_def isspace_def ascii_lower_def

lemma prompts_normalized:
  "map (\<lambda>(p, v). lower U (strip p)) (pairs CONVERSATION) = table_keys"
proof -
  have "map (\<lambda>(p, v). lower U (strip p)) (pairs CONVERSATION) =
      map (\<lambda>p. lower U (strip p)) (map fst (pairs CONVERSATION))"
    by (simp add: case_prod_unfold comp_def)
  also have "\<dots> = table_keys"
    unfolding prompts_CONVERSATION by (simp add: table_keys_def normalize_simps)
  finally show ?thesis .
qed

lemma distinct_table_keys: "distinct table_keys"
  unfolding table_keys_def distinct_map_str by simp

lemma dict_keys_phrase_table: "dict_keys (phrase_table U) = table_keys"
  using prompts_normalized[of U]
  by (simp add: dict_keys_def phrase_table_def case_prod_unfold comp_def)

lemma build_mapping_CONVERSATION: "build_mapping U CONVERSATION = Inr (phrase_table U)"
proof -
  have "distinct (map fst [] @ map (\<lambda>(p, v). lower U (strip p)) (pairs CONVERSATION))"
    by (simp add: prompts_normalized distinct_table_keys)
  from fold_update_fresh[OF this] show ?thesis
    by (simp add: build_mapping_pairs phrase_table_def)
qed

lemma fallback_get_response_respond:
  "fallback_get_response U user_text = respond U (phrase_table U) user_text"
  by (simp add: fallback_get_response_def build_mapping_CONVERSATION)

lemma length_CONVERSATION: "length CONVERSATION = 70"
  by (simp add: CONVERSATION_def)

lemma replies_nonempty: "list_all (\<lambda>(p, v). v \<noteq> []) (pairs CONVERSATION)"
  by (simp add: CONVERSATION_def str_Nil_iff)

lemma phrase_table_values_nonempty: "map_of (phrase_table U) k = Some v \<Longrightarrow> v \<noteq> []"
proof -
  assume "map_of (phrase_table U) k = Some v"
  then have "(k, v) \<in> set (phrase_table U)" by (rule map_of_SomeD)
  then obtain p where "(p, v) \<in> set (pairs CONVERSATION)"
    by (auto simp: phrase_table_def)
  with replies_nonempty show ?thesis
    by (auto simp: list_all_iff)
qed

lemma Nil_str_iff: "[] = str s \<longleftrightarrow> s = []"
  by (auto simp: str_def)

lemma phrase_table_nth:
  assumes "i < length CONVERSATION div 2"
  shows "phrase_table U ! i = (lower U (strip (CONVERSATION ! (2 * i))), CONVERSATION ! (2 * i + 1))"
  using assms by (simp add: phrase_table_def length_pairs pairs_nth)

lemma distinct_phrase_table: "distinct (map fst (phrase_table U))"
  using dict_keys_phrase_table[of U] distinct_table_keys by (simp add: dict_keys_def)

text \<open>
  C1. For the \<open>i\<close>-th pair (prompt, response) of \<open>CONVERSATION\<close> and every input whose
  trimmed, lower-cased form equals that of the prompt (the prompt itself, or the prompt
  with other letter case or white space around it), \<open>fallback_get_response\<close> returns
  exactly the response of the pair.
\<close>

theorem exact_match_returns_paired_response:
  assumes "i < length CONVERSATION div 2"
    and "lower U (strip v) = lower U (strip (CONVERSATION ! (2 * i)))"
  shows "fallback_get_response U v = Inr (CONVERSATION ! (2 * i + 1))"
proof -
  have len: "i < length (phrase_table U)"
    using assms(1) by (simp add: phrase_table_def length_pairs)
  then have "phrase_table U ! i \<in> set (phrase_table U)" by simp
  then have mem: "(lower U (strip v), CONVERSATION ! (2 * i + 1)) \<in> set (phrase_table U)"
    by (simp add: phrase_table_nth[OF assms(1)] assms(2))
  then have m: "map_of (phrase_table U) (lower U (strip v)) = Some (CONVERSATION ! (2 * i + 1))"
    using distinct_phrase_table by simp
  from mem have "lower U (strip v) \<in> set (dict_keys (phrase_table U))"
    by (force simp: dict_keys_def)
  then show ?thesis
    by (simp add: fallback_get_response_respond respond_def Let_def dict_getitem_def m)
qed

text \<open>C1 at the first pair and the input \<open>"  HeLLo   "\<close>.\<close>

theorem exact_match_returns_paired_response_witness:
  "(0::nat) < length CONVERSATION div 2 \<and>
   lower (\<lambda>s. s) (strip (str ''  HeLLo   '')) = lower (\<lambda>s. s) (strip (CONVERSATION ! (2 * 0))) \<and>
   fallback_get_response (\<lambda>s. s) (str ''  HeLLo   '') =
     Inr (str ''Hello! Welcome to our textile and clothing store. How may I assist you today?'')"
proof -
  have a: "(0::nat) < length CONVERSATION div 2" by (simp add: length_CONVERSATION)
  have c0: "CONVERSATION ! (2 * 0) = str ''Hello''"
    and c1: "CONVERSATION ! (2 * 0 + 1) =
      str ''Hello! Welcome to our textile and clothing store. How may I assist you today?''"
    by (simp_all add: CONVERSATION_def)
  have b: "lower (\<lambda>s. s) (strip (str ''  HeLLo   '')) = lower (\<lambda>s. s) (strip (CONVERSATION ! (2 * 0)))"
    unfolding c0 by (simp add: normalize_simps)
  from exact_match_returns_paired_response[OF a b] a b show ?thesis
    unfolding c1 by blast
qed

lemma generic_fallback_nonempty: "generic_fallback \<noteq> []"
  by (simp add: generic_fallback_def str_Nil_iff)

lemma keyword_rules_nonempty:
  assumes "\<And>k v. map_of mapping k = Some v \<Longrightarrow> v \<noteq> []"
  shows "keyword_rules mapping key \<noteq> []"
proof -
  have "dict_get mapping k dflt \<noteq> []" if "dflt \<noteq> []" for k dflt
    using that assms[of k] by (cases "map_of mapping k") (auto simp: dict_get_def)
  then show ?thesis
    by (simp add: keyword_rules_def generic_fallback_nonempty str_Nil_iff)
qed

lemma respond_total:
  assumes "\<And>k v. map_of mapping k = Some v \<Longrightarrow> v \<noteq> []"
  shows "\<exists>reply. respond U mapping input = Inr reply \<and> reply \<noteq> []"
proof (cases "lower U (strip input) \<in> set (dict_keys mapping)")
  case True
  from dict_getitem_key[OF this] assms True show ?thesis
    by (auto simp: respond_def Let_def)
next
  case False
  show ?thesis
  proof (cases rule: get_close_matches_cases[of "lower U (strip input)" "dict_keys mapping" "6 / 10"])
    case none
    with False keyword_rules_nonempty[OF assms] show ?thesis
      by (simp add: respond_def Let_def)
  next
    case (best k)
    then have "k \<in> set (dict_keys mapping)" by (simp add: close_keys_def)
    from dict_getitem_key[OF this] assms best(1) False show ?thesis
      by (auto simp: respond_def Let_def)
  qed
qed

text \<open>
  C6. For every input string, \<open>fallback_get_response\<close> raises no exception and returns a
  reply that is not the empty string.
\<close>

theorem fallback_get_response_total:
  "\<exists>reply. fallback_get_response U input = Inr reply \<and> reply \<noteq> []"
  unfolding fallback_get_response_respond
  by (rule respond_total) (rule phrase_table_values_nonempty)

text \<open>C6 at the empty string and at a question the table does not hold.\<close>

theorem fallback_get_response_total_witness:
  "(\<exists>reply. fallback_get_response (\<lambda>s. s) [] = Inr reply \<and> reply \<noteq> []) \<and>
   (\<exists>reply. fallback_get_response (\<lambda>s. s) (str ''What about silk?'') = Inr reply \<and> reply \<noteq> [])"
  using fallback_get_response_total[of "\<lambda>s. s" "[]"]
    fallback_get_response_total[of "\<lambda>s. s" "str ''What about silk?''"]
  by blast

lemma strip_blank: "list_all isspace s \<Longrightarrow> strip s = []"
proof -
  assume "list_all isspace s"
  then have d: "dropWhile isspace s = []"
    by (induction s) auto
  show ?thesis unfolding strip_def d by simp
qed

lemma lower_Nil: "lower U [] = []"
  by (simp add: lower_def isascii_def)

lemma ratio_Nil_word: "k \<noteq> [] \<Longrightarrow> ratio k [] = 0"
proof -
  assume "k \<noteq> []"
  then have "real_quick_ratio k [] = 0"
    by (simp add: real_quick_ratio_def calculate_ratio_def)
  moreover have "0 \<le> ratio k []"
    by (simp add: ratio_def calculate_ratio_def Let_def)
  ultimately show ?thesis
    using ratio_le_real_quick_ratio[of k "[]"] by simp
qed

lemma Nil_notin_table_keys: "[] \<notin> set table_keys"
  by (simp add: table_keys_def Nil_str_iff)

text \<open>
  C7. On the empty string and on every string of white space only,
  \<open>fallback_get_response\<close> returns the generic apology, not an error, a table entry or a
  keyword reply.
\<close>

theorem blank_input_generic_fallback:
  assumes "list_all isspace input"
  shows "fallback_get_response U input = Inr generic_fallback"
proof -
  have key: "lower U (strip input) = []"
    using assms by (simp add: strip_blank lower_Nil)
  have nokey: "lower U (strip input) \<notin> set (dict_keys (phrase_table U))"
    by (simp add: key dict_keys_phrase_table Nil_notin_table_keys)
  have "\<forall>k\<in>set (dict_keys (phrase_table U)). ratio k (lower U (strip input)) < 6 / 10"
  proof
    fix k assume "k \<in> set (dict_keys (phrase_table U))"
    then have "k \<noteq> []"
      using Nil_notin_table_keys by (auto simp: dict_keys_phrase_table)
    then show "ratio k (lower U (strip input)) < 6 / 10"
      by (simp add: key ratio_Nil_word)
  qed
  from respond_no_close[OF nokey this]
  have "respond U (phrase_table U) input = Inr (keyword_rules (phrase_table U) [])"
    by (simp add: key)
  also have "keyword_rules (phrase_table U) [] = generic_fallback"
    by (simp add: keyword_rules_def str_Nil_iff)
  finally show ?thesis by (simp add: fallback_get_response_respond)
qed

text \<open>C7 at the empty string and at a string of spaces, a tab, a line feed and two Unicode spaces.\<close>

theorem blank_input_generic_fallback_witness:
  "list_all isspace [] \<and> fallback_get_response (\<lambda>s. s) [] = Inr generic_fallback \<and>
   list_all isspace (str ''   '' @ [0x09, 0x0A, 0xA0, 0x3000]) \<and>
   fallback_get_response (\<lambda>s. s) (str ''   '' @ [0x09, 0x0A, 0xA0, 0x3000]) = Inr generic_fallback"
proof -
  have a: "list_all isspace []" by simp
  have b: "list_all isspace (str ''   '' @ [0x09, 0x0A, 0xA0, 0x3000])"
    by (simp add: str_simps isspace_def)
  from blank_input_generic_fallback[OF a] blank_input_generic_fallback[OF b] a b
  show ?thesis by blast
qed

section \<open>Evaluating the responder on concrete inputs\<close>

text \<open>
  The number of matches that \<open>quick_ratio\<close> counts is the size of the intersection of
  \<open>a\<close> and \<open>b\<close> as multisets. \<open>common_count\<close> computes that size by structural recursion;
  the equation \<open>quick_ratio_common_count\<close> is proved and then used as the code equation of
  \<open>quick_ratio\<close>, which makes the evaluation of \<open>get_close_matches\<close> on the 35 keys fast.
\<close>

fun common_count :: "'a list \<Rightarrow> 'a list \<Rightarrow> nat" where
  "common_count [] b = 0"
| "common_count (x # xs) b =
     (if x \<in> set b then Suc (common_count xs (remove1 x b)) else common_count xs b)"

lemma common_count_size: "common_count a b = size (mset a \<inter># mset b)"
proof (induction a arbitrary: b)
  case Nil
  then show ?case by simp
next
  case (Cons x xs)
  show ?case
  proof (cases "x \<in> set b")
    case True
    then have "mset (x # xs) \<inter># mset b = add_mset x (mset xs \<inter># mset (remove1 x b))"
      by (simp add: inter_add_left2)
    with True Cons.IH[of "remove1 x b"] show ?thesis by simp
  next
    case False
    then have "mset (x # xs) \<inter># mset b = mset xs \<inter># mset b"
      by (simp add: inter_add_left1)
    with False Cons.IH[of b] show ?thesis by simp
  qed
qed

lemma quick_ratio_common_count [code]:
  "quick_ratio a b = calculate_ratio (common_count a b) (length a + length b)"
  by (simp add: quick_ratio_def quick_loop_common common_count_size)

lemma phrase_table_hello:
  "map_of (phrase_table U) (str ''hello'') =
     Some (str ''Hello! Welcome to our textile and clothing store. How may I assist you today?'')"
proof -
  have "phrase_table U ! 0 \<in> set (phrase_table U)"
    by (simp add: phrase_table_def length_pairs length_CONVERSATION)
  moreover have "phrase_table U ! 0 =
      (str ''hello'', str ''Hello! Welcome to our textile and clothing store. How may I assist you today?'')"
    using phrase_table_nth[of 0 U]
    by (simp add: length_CONVERSATION) (simp add: CONVERSATION_def normalize_simps)
  ultimately show ?thesis
    using distinct_phrase_table[of U] by simp
qed

lemma length_phrase_table: "length (phrase_table U) = 35"
  by (simp add: phrase_table_def length_pairs length_CONVERSATION)

lemma normalize_shipping: "lower U (strip (str ''shipping'')) = str ''shipping''"
  by (simp add: normalize_simps)

lemma normalize_hey: "lower U (strip (str ''hey'')) = str ''hey''"
  by (simp add: normalize_simps)

lemma shipping_no_key: "str ''shipping'' \<notin> set table_keys"
  by (simp add: table_keys_def str_eq_iff)

lemma hey_no_key: "str ''hey'' \<notin> set table_keys"
  by (simp add: table_keys_def str_eq_iff)

lemma shipping_no_close: "get_close_matches (str ''shipping'') table_keys (6 / 10) = []"
  by code_simp

lemma hey_no_close: "get_close_matches (str ''hey'') table_keys (6 / 10) = []"
  by code_simp

lemma contains_hi_shipping: "contains (str ''hi'') (str ''shipping'')"
  by (simp add: str_simps)

lemma contains_hey_hey: "contains (str ''hey'') (str ''hey'')"
  by (simp add: str_simps)

lemma respond_greeting_no_close:
  assumes "lower U (strip input) = key" "key \<notin> set table_keys"
    and "get_close_matches key table_keys (6 / 10) = []"
    and "contains (str ''hi'') key \<or> contains (str ''hello'') key \<or> contains (str ''hey'') key"
  shows "fallback_get_response U input =
    Inr (str ''Hello! Welcome to our textile and clothing store. How may I assist you today?'')"
proof -
  have "respond U (phrase_table U) input = Inr (keyword_rules (phrase_table U) key)"
    using assms(1,2,3) by (simp add: respond_def Let_def dict_keys_phrase_table)
  also have "keyword_rules (phrase_table U) key =
      str ''Hello! Welcome to our textile and clothing store. How may I assist you today?''"
    using assms(4) by (auto simp: keyword_rules_def dict_get_def phrase_table_hello)
  finally show ?thesis by (simp add: fallback_get_response_respond)
qed

text \<open>
  C9. The keyword rules test substrings, not words. The input \<open>shipping\<close> is a single
  word, none of \<open>hi\<close>, \<open>hello\<close>, \<open>hey\<close>, and contains \<open>hi\<close>. It is no key of the table and
  no key is a close match, so the greeting rule answers it with the table's entry for
  \<open>hello\<close>.
\<close>

theorem shipping_greeted_by_substring:
  "contains (str ''hi'') (str ''shipping'') \<and>
   list_all (\<lambda>c. \<not> isspace c) (str ''shipping'') \<and>
   str ''shipping'' \<notin> set [str ''hi'', str ''hello'', str ''hey''] \<and>
   (\<exists>mapping. build_mapping U CONVERSATION = Inr mapping \<and>
      lower U (strip (str ''shipping'')) \<notin> set (dict_keys mapping) \<and>
      get_close_matches (lower U (strip (str ''shipping''))) (dict_keys mapping) (6 / 10) = [] \<and>
      map_of mapping (str ''hello'') =
        Some (str ''Hello! Welcome to our textile and clothing store. How may I assist you today?'')) \<and>
   fallback_get_response U (str ''shipping'') =
     Inr (str ''Hello! Welcome to our textile and clothing store. How may I assist you today?'')"
proof -
  have a: "list_all (\<lambda>c. \<not> isspace c) (str ''shipping'')"
    by (simp add: str_simps isspace_def)
  have b: "str ''shipping'' \<notin> set [str ''hi'', str ''hello'', str ''hey'']"
    by (simp add: str_eq_iff)
  have c: "fallback_get_response U (str ''shipping'') =
     Inr (str ''Hello! Welcome to our textile and clothing store. How may I assist you today?'')"
    using normalize_shipping shipping_no_key shipping_no_close contains_hi_shipping
    by (intro respond_greeting_no_close) auto
  have d: "\<exists>mapping. build_mapping U CONVERSATION = Inr mapping \<and>
      lower U (strip (str ''shipping'')) \<notin> set (dict_keys mapping) \<and>
      get_close_matches (lower U (strip (str ''shipping''))) (dict_keys mapping) (6 / 10) = [] \<and>
      map_of mapping (str ''hello'') =
        Some (str ''Hello! Welcome to our textile and clothing store. How may I assist you today?'')"
    using shipping_no_key shipping_no_close
    by (intro exI[of _ "phrase_table U"])
      (simp add: build_mapping_CONVERSATION dict_keys_phrase_table normalize_shipping
        phrase_table_hello)
  from contains_hi_shipping a b d c show ?thesis by blast
qed

text \<open>C9 with ASCII-only lower-casing.\<close>

theorem shipping_greeted_by_substring_witness:
  "contains (str ''hi'') (str ''shipping'') \<and>
   fallback_get_response (\<lambda>s. s) (str ''shipping'') =
     Inr (str ''Hello! Welcome to our textile and clothing store. How may I assist you today?'')"
  using shipping_greeted_by_substring[of "\<lambda>s. s"] by blast

lemma main_mapping_hey: "map_of main_mapping (str ''hey'') = None"
  by (simp add: main_mapping_def str_eq_iff)

lemma main_reply_differs:
  "str ''Hello! Welcome to our textile and clothing store. How may I assist you today?'' \<noteq>
   str ''Sorry, I don't have an answer for that yet. Could you try rephrasing?''"
  by (simp add: str_eq_iff)

text \<open>
  C10 (amended). The table of app.py has 35 entries, the table of main.py has 7. On the
  input \<open>hey\<close> app.py answers with the greeting (no exact or close match, keyword rule)
  and main.py, which only looks the key up, with its own apology: the two replies differ.
  The generic apologies of the two programs are different strings as well.
\<close>

theorem responders_differ_on_hey:
  "(\<exists>mapping. build_mapping U CONVERSATION = Inr mapping \<and> length mapping = 35) \<and>
   length main_mapping = 7 \<and>
   fallback_get_response U (str ''hey'') =
     Inr (str ''Hello! Welcome to our textile and clothing store. How may I assist you today?'') \<and>
   main_fallback_get_response U (str ''hey'') =
     str ''Sorry, I don't have an answer for that yet. Could you try rephrasing?'' \<and>
   fallback_get_response U (str ''hey'') \<noteq> Inr (main_fallback_get_response U (str ''hey'')) \<and>
   generic_fallback \<noteq> str ''Sorry, I don't have an answer for that yet. Could you try rephrasing?''"
proof -
  have e: "generic_fallback \<noteq> str ''Sorry, I don't have an answer for that yet. Could you try rephrasing?''"
    by (simp add: generic_fallback_def str_simps)
  have a: "\<exists>mapping. build_mapping U CONVERSATION = Inr mapping \<and> length mapping = 35"
    by (simp add: build_mapping_CONVERSATION length_phrase_table)
  have b: "length main_mapping = 7"
    by (simp add: main_mapping_def)
  have c: "fallback_get_response U (str ''hey'') =
     Inr (str ''Hello! Welcome to our textile and clothing store. How may I assist you today?'')"
    using normalize_hey hey_no_key hey_no_close contains_hey_hey
    by (intro respond_greeting_no_close) auto
  have d: "main_fallback_get_response U (str ''hey'') =
     str ''Sorry, I don't have an answer for that yet. Could you try rephrasing?''"
    by (simp add: main_fallback_get_response_def normalize_hey dict_get_def main_mapping_hey)
  from a b c d e main_reply_differs show ?thesis by simp
qed

text \<open>C10 (amended) with ASCII-only lower-casing.\<close>

theorem responders_differ_on_hey_witness:
  "fallback_get_response (\<lambda>s. s) (str ''hey'') \<noteq>
     Inr (main_fallback_get_response (\<lambda>s. s) (str ''hey''))"
  using responders_differ_on_hey[of "\<lambda>s. s"] by blast

text \<open>C10 as stated speaks of a table of 34 pairs; the table app.py builds has 35.\<close>

theorem app_table_not_34_pairs:
  "\<not> (\<exists>mapping. build_mapping (\<lambda>s. s) CONVERSATION = Inr mapping \<and> length mapping = 34)"
  by (simp add: build_mapping_CONVERSATION length_phrase_table)

lemma normalize_hithanksreturn: "lower U (strip (str '' HiThanksReturn '')) = str ''hithanksreturn''"
  by (simp add: normalize_simps)

lemma hithanksreturn_no_key: "str ''hithanksreturn'' \<notin> set table_keys"
  by (simp add: table_keys_def str_eq_iff)

lemma thanks_key: "str ''thanks'' \<in> set table_keys"
  by (simp add: table_keys_def)

lemma ratio_thanks_hithanksreturn: "ratio (str ''thanks'') (str ''hithanksreturn'') = 6 / 10"
  by code_simp

lemma hithanksreturn_close:
  "get_close_matches (str ''hithanksreturn'') table_keys (6 / 10) = [str ''thanks'']"
  by code_simp

lemma phrase_table_thanks:
  "map_of (phrase_table U) (str ''thanks'') =
     Some (str ''My pleasure! Let me know if you have any other questions.'')"
proof -
  have "phrase_table U ! 33 \<in> set (phrase_table U)"
    by (simp add: length_phrase_table)
  moreover have "phrase_table U ! 33 =
      (str ''thanks'', str ''My pleasure! Let me know if you have any other questions.'')"
    using phrase_table_nth[of 33 U]
    by (simp add: length_CONVERSATION) (simp add: CONVERSATION_def normalize_simps)
  ultimately show ?thesis
    using distinct_phrase_table[of U] by simp
qed

text \<open>
  C3 on the table of app.py at the input \<open>" HiThanksReturn "\<close>. Its normalized form is
  no key; the key \<open>thanks\<close> has ratio exactly \<open>0.6\<close> to it (six matching characters, twenty
  in all) and no key has more, so the reply is the entry of \<open>thanks\<close>, although the
  input contains \<open>hi\<close>.
\<close>

theorem respond_fuzzy_match_witness:
  "lower (\<lambda>s. s) (strip (str '' HiThanksReturn '')) \<notin> set (dict_keys (phrase_table (\<lambda>s. s))) \<and>
   (\<exists>k\<in>set (dict_keys (phrase_table (\<lambda>s. s))).
      ratio k (lower (\<lambda>s. s) (strip (str '' HiThanksReturn ''))) \<ge> 6 / 10) \<and>
   (\<exists>k v. map_of (phrase_table (\<lambda>s. s)) k = Some v \<and>
      respond (\<lambda>s. s) (phrase_table (\<lambda>s. s)) (str '' HiThanksReturn '') = Inr v \<and>
      ratio k (lower (\<lambda>s. s) (strip (str '' HiThanksReturn ''))) \<ge> 6 / 10 \<and>
      (\<forall>k'\<in>set (dict_keys (phrase_table (\<lambda>s. s))).
         ratio k' (lower (\<lambda>s. s) (strip (str '' HiThanksReturn '')))
           \<le> ratio k (lower (\<lambda>s. s) (strip (str '' HiThanksReturn ''))) \<and>
         (ratio k' (lower (\<lambda>s. s) (strip (str '' HiThanksReturn '')))
            = ratio k (lower (\<lambda>s. s) (strip (str '' HiThanksReturn ''))) \<longrightarrow> k' \<le> k))) \<and>
   fallback_get_response (\<lambda>s. s) (str '' HiThanksReturn '') =
     Inr (str ''My pleasure! Let me know if you have any other questions.'')"
proof -
  let ?U = "\<lambda>s::str. s"
  let ?key = "lower ?U (strip (str '' HiThanksReturn ''))"
  have nokey: "?key \<notin> set (dict_keys (phrase_table ?U))"
    by (simp add: normalize_hithanksreturn dict_keys_phrase_table hithanksreturn_no_key)
  have ex: "\<exists>k\<in>set (dict_keys (phrase_table ?U)). ratio k ?key \<ge> 6 / 10"
    using thanks_key ratio_thanks_hithanksreturn
    by (intro bexI[of _ "str ''thanks''"])
      (simp_all add: normalize_hithanksreturn dict_keys_phrase_table)
  have val: "fallback_get_response ?U (str '' HiThanksReturn '') =
      Inr (str ''My pleasure! Let me know if you have any other questions.'')"
    using hithanksreturn_no_key hithanksreturn_close
    by (simp add: fallback_get_response_respond respond_def Let_def normalize_hithanksreturn
        dict_keys_phrase_table dict_getitem_def phrase_table_thanks)
  from respond_fuzzy_match[OF nokey] ex nokey val show ?thesis
    by (simp only: if_True simp_thms)
qed

lemma normalize_c5: "lower U (strip (str '' hi... Thank... Refund... '')) = str ''hi... thank... refund...''"
  by (simp add: normalize_simps)

lemma c5_no_key: "str ''hi... thank... refund...'' \<notin> set table_keys"
  by (simp add: table_keys_def str_eq_iff)

lemma c5_no_close: "get_close_matches (str ''hi... thank... refund...'') table_keys (6 / 10) = []"
  by code_simp

lemma c5_contains:
  "contains (str ''thank'') (str ''hi... thank... refund...'')"
  "contains (str ''refund'') (str ''hi... thank... refund...'')"
  by (simp_all add: str_simps)

lemma c5_raw:
  "isascii (str '' hi... Thank... Refund... '')"
  "contains (str ''hi'') (str '' hi... Thank... Refund... '')"
  by (simp_all add: str_simps isascii_def)

text \<open>
  C5 at the input \<open>" hi... Thank... Refund... "\<close>, an ASCII string that contains \<open>hi\<close> and
  whose normalized form also contains \<open>thank\<close> and \<open>refund\<close>: on the table of app.py the
  reply is the entry of \<open>hello\<close>, on an empty table the literal \<open>Hello!\<close>.
\<close>

theorem respond_greeting_rule_witness:
  "lower (\<lambda>s. s) (strip (str '' hi... Thank... Refund... '')) \<notin> set (dict_keys (phrase_table (\<lambda>s. s))) \<and>
   list_all (\<lambda>k. ratio k (lower (\<lambda>s. s) (strip (str '' hi... Thank... Refund... ''))) < 6 / 10)
     (dict_keys (phrase_table (\<lambda>s. s))) \<and>
   isascii (str '' hi... Thank... Refund... '') \<and>
   contains (str ''hi'') (str '' hi... Thank... Refund... '') \<and>
   contains (str ''thank'') (lower (\<lambda>s. s) (strip (str '' hi... Thank... Refund... ''))) \<and>
   contains (str ''refund'') (lower (\<lambda>s. s) (strip (str '' hi... Thank... Refund... ''))) \<and>
   respond (\<lambda>s. s) (phrase_table (\<lambda>s. s)) (str '' hi... Thank... Refund... '') =
     Inr (str ''Hello! Welcome to our textile and clothing store. How may I assist you today?'') \<and>
   respond (\<lambda>s. s) [] (str '' hi... Thank... Refund... '') = Inr (str ''Hello!'')"
proof -
  let ?U = "\<lambda>s::str. s"
  let ?input = "str '' hi... Thank... Refund... ''"
  let ?key = "lower ?U (strip ?input)"
  have nokey: "?key \<notin> set (dict_keys (phrase_table ?U))"
    by (simp add: normalize_c5 dict_keys_phrase_table c5_no_key)
  have far: "\<forall>k\<in>set (dict_keys (phrase_table ?U)). ratio k ?key < 6 / 10"
    using c5_no_close
    by (simp only: normalize_c5 dict_keys_phrase_table get_close_matches_Nil_iff)
  have greet: "\<exists>word\<in>set [str ''hi'', str ''hello'', str ''hey''].
      contains word ?key \<or> (isascii ?input \<and> contains word ?input)"
    using c5_raw by (intro bexI[of _ "str ''hi''"]) simp_all
  have nokey0: "?key \<notin> set (dict_keys ([] :: (str, str) dict))"
    by (simp add: dict_keys_def)
  have far0: "\<forall>k\<in>set (dict_keys ([] :: (str, str) dict)). ratio k ?key < 6 / 10"
    by (simp add: dict_keys_def)
  from respond_greeting_rule[OF nokey far greet] respond_greeting_rule[OF nokey0 far0 greet]
    nokey far c5_contains c5_raw
  show ?thesis
    by (simp add: phrase_table_hello normalize_c5 list_all_iff)
qed

end
